theory Spec2Isabelle
  imports Main "HOL-Library.Finite_Map" "HOL-Library.List_Lexorder" "HOL-Library.Char_ord"
begin

section \<open>Resumable upload server: a shallow embedding of server.py\<close>

text \<open>
  The development follows \<^verbatim>\<open>server.py\<close>: the path helpers
  (\<^verbatim>\<open>_safe_name\<close>, \<^verbatim>\<open>_safe_relpath\<close>, \<^verbatim>\<open>_tmp_path\<close>,
  \<^verbatim>\<open>_final_path\<close>, \<^verbatim>\<open>_unique_path\<close>), the move helper
  \<^verbatim>\<open>_atomic_move_with_retry\<close> and the three handlers of the resumable protocol
  (\<^verbatim>\<open>upload_status\<close>, \<^verbatim>\<open>upload_chunk\<close>, \<^verbatim>\<open>upload_finish\<close>).
  A leading underscore is dropped from a name, since an Isabelle identifier cannot start with one.

  Modelling boundary.
  \<^item> A Python \<^verbatim>\<open>str\<close> is a \<^typ>\<open>string\<close>; a character stands for a code point below 256.
  \<^item> A \<^verbatim>\<open>Path\<close> is the list of its components.
  \<^item> The file system is a finite map from paths to nodes: a regular file with its bytes, or
    a directory. \<^verbatim>\<open>Path.exists\<close> holds for both kinds, \<^verbatim>\<open>stat\<close> gives a size for both,
    and the calls of the operating system (\<^verbatim>\<open>mkdir\<close>, \<^verbatim>\<open>open\<close>, \<^verbatim>\<open>os.replace\<close>,
    \<^verbatim>\<open>shutil.move\<close>, \<^verbatim>\<open>unlink\<close>) raise where the state of the map says so: a regular
    file where a directory is needed, a directory where a file is needed, a missing source.
  \<^item> On the machine every entry lies in a directory. The map does not enforce this; where a
    statement needs the directories above a path to be directories, it says so.
  \<^item> The source expects the calls of the move to fail for reasons outside the file system as
    well (a lock held by another process): it retries \<^verbatim>\<open>os.replace\<close> and catches what
    \<^verbatim>\<open>shutil.move\<close> raises. So the outcome of each of these calls can also be decided by
    the environment of the request, which is an input of the finish handler.
  \<^item> The handlers run one at a time; concurrent requests are outside the model.
  \<^item> A handler returns the HTTP response together with the new file system. An exception that
    no handler of the source catches ends the request; Flask answers it with status 500.
\<close>

subsection \<open>Strings\<close>

text \<open>\<^verbatim>\<open>str.isspace\<close> on the code points below 256.\<close>

definition is_space :: "char \<Rightarrow> bool" where
  "is_space c \<longleftrightarrow> of_char c \<in> {9, 10, 11, 12, 13, 28, 29, 30, 31, 32, 133, 160 :: nat}"

text \<open>\<^verbatim>\<open>s.strip(chars)\<close>, with the set of stripped characters as a predicate.\<close>

definition strip_by :: "(char \<Rightarrow> bool) \<Rightarrow> string \<Rightarrow> string" where
  "strip_by p s = rev (dropWhile p (rev (dropWhile p s)))"

definition strip :: "string \<Rightarrow> string" where
  "strip s = strip_by is_space s"

text \<open>\<^verbatim>\<open>s.split(c)\<close> for a one-character separator: never the empty list.\<close>

fun split_on :: "char \<Rightarrow> string \<Rightarrow> string list" where
  "split_on c [] = [[]]"
| "split_on c (x # xs) =
     (if x = c then [] # split_on c xs
      else (case split_on c xs of
              [] \<Rightarrow> [[x]]
            | w # ws \<Rightarrow> (x # w) # ws))"

text \<open>\<^verbatim>\<open>s.replace(a, b)\<close> for single characters.\<close>

definition replace_char :: "char \<Rightarrow> char \<Rightarrow> string \<Rightarrow> string" where
  "replace_char a b s = map (\<lambda>c. if c = a then b else c) s"

definition is_digit :: "char \<Rightarrow> bool" where
  "is_digit c \<longleftrightarrow> 48 \<le> (of_char c :: nat) \<and> (of_char c :: nat) \<le> 57"

definition is_upper :: "char \<Rightarrow> bool" where
  "is_upper c \<longleftrightarrow> 65 \<le> (of_char c :: nat) \<and> (of_char c :: nat) \<le> 90"

definition is_lower :: "char \<Rightarrow> bool" where
  "is_lower c \<longleftrightarrow> 97 \<le> (of_char c :: nat) \<and> (of_char c :: nat) \<le> 122"

text \<open>
  The white space \<^verbatim>\<open>int\<close> ignores around a numeral, on the code points below 256. The
  separators 0x1C to 0x1F are white space for \<^verbatim>\<open>str.strip\<close> and not for \<^verbatim>\<open>int\<close>.
\<close>

definition int_space :: "char \<Rightarrow> bool" where
  "int_space c \<longleftrightarrow> of_char c \<in> {9, 10, 11, 12, 13, 32, 133, 160 :: nat}"

subsection \<open>Exceptions\<close>

text \<open>
  The subclasses of \<^verbatim>\<open>OSError\<close> that the calls of the file system raise; \<^verbatim>\<open>OSError\<close>
  itself stands for any other one (directory not empty, invalid argument), and
  \<^verbatim>\<open>ShutilError\<close> for \<^verbatim>\<open>shutil.Error\<close>.
\<close>

datatype os_error =
    FileNotFoundError
  | FileExistsError
  | NotADirectoryError
  | IsADirectoryError
  | PermissionError
  | OSError
  | ShutilError

datatype py_exc = ValueError | OSErr os_error

subsection \<open>Paths and the file system\<close>

type_synonym path = "string list"

type_synonym bytes = "char list"

datatype node = File bytes | Dir

type_synonym fs = "(path, node) fmap"

subsection \<open>Platform\<close>

text \<open>
  What the host and the libraries outside the repository decide: whether
  \<^verbatim>\<open>os.name == "nt"\<close>; the first step of \<^verbatim>\<open>werkzeug.utils.secure_filename\<close>,
  which folds a name to ASCII (Unicode normalisation NFKD, then
  \<^verbatim>\<open>encode("ascii", "ignore")\<close>); the size \<^verbatim>\<open>stat\<close> reports for a directory; and
  \<^verbatim>\<open>sys.get_int_max_str_digits()\<close>, the largest number of digits \<^verbatim>\<open>int\<close> converts
  (4300 by default, 0 for no limit).
\<close>

record platform =
  os_nt :: bool
  ascii_fold :: "string \<Rightarrow> string"
  dir_size :: "fs \<Rightarrow> path \<Rightarrow> int"
  int_max_str_digits :: nat

subsection \<open>\<^verbatim>\<open>int(...)\<close>\<close>

text \<open>
  \<^verbatim>\<open>int(s)\<close> on a string, base ten: surrounding white space is ignored, one sign is allowed,
  and single underscores may separate groups of digits. Anything else raises
  \<^verbatim>\<open>ValueError\<close>, and so does a numeral with more digits than the limit of the platform
  (leading zeros count, the sign and the underscores do not).
\<close>

definition digit_val :: "char \<Rightarrow> int" where
  "digit_val c = int (of_char c) - 48"

definition digits_val :: "string \<Rightarrow> int" where
  "digits_val ds = foldl (\<lambda>acc c. 10 * acc + digit_val c) 0 ds"

definition py_int :: "platform \<Rightarrow> string \<Rightarrow> py_exc + int" where
  "py_int P s =
     (let t = strip_by int_space s;
          (sign, body) = (case t of
                            [] \<Rightarrow> (1, [])
                          | c # r \<Rightarrow> if c = CHR ''-'' then (- 1, r)
                                     else if c = CHR ''+'' then (1, r)
                                     else (1 :: int, t));
          groups = split_on (CHR ''_'') body
      in if list_all (\<lambda>g. g \<noteq> [] \<and> list_all is_digit g) groups
            \<and> \<not> (0 < int_max_str_digits P \<and> int_max_str_digits P < length (concat groups))
         then Inr (sign * digits_val (concat groups))
         else Inl ValueError)"

subsection \<open>Query parameters\<close>

text \<open>\<^verbatim>\<open>request.args\<close>: the first value of each query parameter.\<close>

type_synonym args = "string \<rightharpoonup> string"

text \<open>\<^verbatim>\<open>request.args.get(key, default)\<close>\<close>

definition args_get :: "args \<Rightarrow> string \<Rightarrow> string \<Rightarrow> string" where
  "args_get a key dflt = (case a key of None \<Rightarrow> dflt | Some v \<Rightarrow> v)"

text \<open>
  \<^verbatim>\<open>int(request.args.get(key, "0") or 0)\<close>: a missing parameter reads as \<^verbatim>\<open>"0"\<close>, an
  empty one as the integer 0, and any other text goes through \<^verbatim>\<open>int\<close>.
\<close>

definition int_arg :: "platform \<Rightarrow> args \<Rightarrow> string \<Rightarrow> py_exc + int" where
  "int_arg P a key = (let v = args_get a key ''0'' in if v = [] then Inr 0 else py_int P v)"

subsection \<open>The roots\<close>

definition UPLOAD_ROOT :: path where
  "UPLOAD_ROOT = [''D:'', ''iphone8OLD'', ''PhoneUploads'']"

definition TMP_DIR :: path where
  "TMP_DIR = UPLOAD_ROOT @ [''.incoming'']"

text \<open>\<^verbatim>\<open>str(p)\<close>: the components joined by the separator of the platform.\<close>

fun join :: "string \<Rightarrow> string list \<Rightarrow> string" where
  "join sep [] = []"
| "join sep [x] = x"
| "join sep (x # y # ys) = x @ sep @ join sep (y # ys)"

definition str_path :: "platform \<Rightarrow> path \<Rightarrow> string" where
  "str_path P p = join (if os_nt P then [CHR 0x5C] else ''/'') p"

subsection \<open>\<^verbatim>\<open>_safe_name\<close>\<close>

text \<open>
  \<^verbatim>\<open>werkzeug.utils.secure_filename\<close> is a library function; it is modelled after its
  source. Path separators become spaces, the words are joined by underscores, every
  character outside \<^verbatim>\<open>[A-Za-z0-9_.-]\<close> is deleted, dots and underscores are stripped from
  both ends, and on Windows a device name gets an underscore in front.
\<close>

definition filename_keep :: "char \<Rightarrow> bool" where
  "filename_keep c \<longleftrightarrow> is_upper c \<or> is_lower c \<or> is_digit c \<or> c \<in> set ''_.-''"

text \<open>\<^verbatim>\<open>s.split()\<close>: the maximal runs of characters that are not white space.\<close>

fun words_from :: "string \<Rightarrow> string \<Rightarrow> string list" where
  "words_from cur [] = (if cur = [] then [] else [cur])"
| "words_from cur (c # cs) =
     (if is_space c then (if cur = [] then words_from [] cs else cur # words_from [] cs)
      else words_from (cur @ [c]) cs)"

definition py_words :: "string \<Rightarrow> string list" where
  "py_words s = words_from [] s"

definition to_upper :: "char \<Rightarrow> char" where
  "to_upper c = (if is_lower c then char_of (of_char c - (32 :: nat)) else c)"

definition windows_device_files :: "string list" where
  "windows_device_files =
     [''CON'', ''PRN'', ''AUX'', ''NUL'',
      ''COM0'', ''COM1'', ''COM2'', ''COM3'', ''COM4'', ''COM5'', ''COM6'', ''COM7'', ''COM8'', ''COM9'',
      ''LPT0'', ''LPT1'', ''LPT2'', ''LPT3'', ''LPT4'', ''LPT5'', ''LPT6'', ''LPT7'', ''LPT8'', ''LPT9'']"

definition secure_filename :: "platform \<Rightarrow> string \<Rightarrow> string" where
  "secure_filename P filename =
     (let f1 = ascii_fold P filename;
          f2 = replace_char (CHR ''/'') (CHR '' '') f1;
          f3 = (if os_nt P then replace_char (CHR 0x5C) (CHR '' '') f2 else f2);
          f4 = filter filename_keep (join ''_'' (py_words f3));
          f5 = strip_by (\<lambda>c. c \<in> set ''._'') f4
      in if os_nt P \<and> f5 \<noteq> [] \<and> map to_upper (hd (split_on (CHR ''.'') f5)) \<in> set windows_device_files
         then ''_'' @ f5
         else f5)"

definition safe_name :: "platform \<Rightarrow> string \<Rightarrow> string" where
  "safe_name P name = (let s = secure_filename P name in if s = [] then ''upload.bin'' else s)"

subsection \<open>\<^verbatim>\<open>_safe_relpath\<close>\<close>

text \<open>
  \<^verbatim>\<open>SAFE_SEG = re.compile(r"^[ .A-Za-z0-9_\-()+=@#,&{}!$%^~\[\]]{1,255}$")\<close>, used with
  \<^verbatim>\<open>match\<close>. The \<^verbatim>\<open>$\<close> of Python also matches just before a newline that ends the string.
\<close>

definition safe_seg_char :: "char \<Rightarrow> bool" where
  "safe_seg_char c \<longleftrightarrow>
     is_upper c \<or> is_lower c \<or> is_digit c \<or> c \<in> set '' ._-()+=@#,&{}!$%^~[]''"

definition SAFE_SEG_match :: "string \<Rightarrow> bool" where
  "SAFE_SEG_match s =
     (let t = (if s \<noteq> [] \<and> last s = CHR 0x0A then butlast s else s)
      in 1 \<le> length t \<and> length t \<le> 255 \<and> list_all safe_seg_char t)"

text \<open>
  The loop of \<^verbatim>\<open>_safe_relpath\<close> over the raw segments, with the list \<^verbatim>\<open>parts\<close> built so
  far; \<^verbatim>\<open>continue\<close> goes on with the same list, \<^verbatim>\<open>break\<close> returns it.
\<close>

fun relpath_loop :: "string list \<Rightarrow> string list \<Rightarrow> string list" where
  "relpath_loop [] parts = parts"
| "relpath_loop (raw # raws) parts =
     (let seg = strip raw in
      if seg = [] \<or> seg = ''.'' \<or> seg = ''..'' then relpath_loop raws parts
      else
        let seg' = (if \<not> SAFE_SEG_match seg then ''_'' else seg);
            parts' = parts @ [take 255 seg']
        in if length parts' \<ge> 50 then parts' else relpath_loop raws parts')"

definition safe_relpath :: "string \<Rightarrow> path" where
  "safe_relpath rel = relpath_loop (split_on (CHR ''/'') (replace_char (CHR 0x5C) (CHR ''/'') rel)) []"

definition tmp_path :: "platform \<Rightarrow> string \<Rightarrow> string \<Rightarrow> path" where
  "tmp_path P name rel = TMP_DIR @ safe_relpath rel @ [safe_name P name @ ''.part'']"

definition final_path :: "platform \<Rightarrow> string \<Rightarrow> string \<Rightarrow> path" where
  "final_path P name rel = UPLOAD_ROOT @ safe_relpath rel @ [safe_name P name]"

subsection \<open>\<^verbatim>\<open>Path.stem\<close>, \<^verbatim>\<open>Path.suffix\<close>, \<^verbatim>\<open>Path.with_name\<close>\<close>

text \<open>
  The index of the last dot of a name (\<^verbatim>\<open>name.rfind('.')\<close>), when there is one. The
  suffix starts there if the dot is neither the first nor the last character of the name;
  otherwise the suffix is empty and the stem is the whole name.
\<close>

definition rfind_dot :: "string \<Rightarrow> nat option" where
  "rfind_dot name =
     (if CHR ''.'' \<in> set name
      then Some (length name - length (takeWhile (\<lambda>c. c \<noteq> CHR ''.'') (rev name)) - 1)
      else None)"

definition name_suffix :: "string \<Rightarrow> string" where
  "name_suffix name =
     (case rfind_dot name of
        None \<Rightarrow> []
      | Some i \<Rightarrow> if 0 < i \<and> i < length name - 1 then drop i name else [])"

definition name_stem :: "string \<Rightarrow> string" where
  "name_stem name =
     (case rfind_dot name of
        None \<Rightarrow> name
      | Some i \<Rightarrow> if 0 < i \<and> i < length name - 1 then take i name else name)"

definition path_name :: "path \<Rightarrow> string" where
  "path_name p = (if p = [] then [] else last p)"

text \<open>
  \<^verbatim>\<open>p.with_name(n)\<close> replaces the last component. (It raises for a path without a name and
  for a name that holds a separator; \<^verbatim>\<open>_unique_path\<close> calls it on a final path, whose name
  comes from \<^verbatim>\<open>_safe_name\<close>, with that name and a number in parentheses.)
\<close>

definition with_name :: "path \<Rightarrow> string \<Rightarrow> path" where
  "with_name p n = butlast p @ [n]"

text \<open>\<^verbatim>\<open>str(i)\<close> for a natural number, in decimal.\<close>

fun str_nat :: "nat \<Rightarrow> string" where
  "str_nat n =
     (if n < 10 then [char_of (48 + n)]
      else str_nat (n div 10) @ [char_of (48 + n mod 10)])"

declare str_nat.simps [simp del]

subsection \<open>The file system\<close>

definition exists :: "fs \<Rightarrow> path \<Rightarrow> bool" where
  "exists fs p \<longleftrightarrow> fmlookup fs p \<noteq> None"

definition is_dir :: "fs \<Rightarrow> path \<Rightarrow> bool" where
  "is_dir fs p \<longleftrightarrow> fmlookup fs p = Some Dir"

definition is_file :: "fs \<Rightarrow> path \<Rightarrow> bool" where
  "is_file fs p = (case fmlookup fs p of Some (File b) \<Rightarrow> True | _ \<Rightarrow> False)"

text \<open>\<^verbatim>\<open>in_tree d k\<close>: the path \<^verbatim>\<open>k\<close> is \<^verbatim>\<open>d\<close> or lies below it.\<close>

definition in_tree :: "path \<Rightarrow> path \<Rightarrow> bool" where
  "in_tree d k \<longleftrightarrow> take (length d) k = d"

text \<open>Some directory on the way down to \<^verbatim>\<open>d\<close>, or \<^verbatim>\<open>d\<close> itself, is a regular file.\<close>

definition blocked :: "fs \<Rightarrow> path \<Rightarrow> bool" where
  "blocked fs d = list_ex (\<lambda>k. is_file fs (take k d)) [1..<Suc (length d)]"

text \<open>
  What a call raises for a path that is not there: \<^verbatim>\<open>NotADirectoryError\<close> on POSIX when the
  way to it goes through a regular file, \<^verbatim>\<open>FileNotFoundError\<close> otherwise.
\<close>

definition absent_error :: "platform \<Rightarrow> fs \<Rightarrow> path \<Rightarrow> os_error" where
  "absent_error P fs p =
     (if \<not> os_nt P \<and> blocked fs (butlast p) then NotADirectoryError else FileNotFoundError)"

text \<open>What a call raises for a directory where it needs a regular file.\<close>

definition dir_error :: "platform \<Rightarrow> os_error" where
  "dir_error P = (if os_nt P then PermissionError else IsADirectoryError)"

text \<open>The directory that is to hold \<^verbatim>\<open>p\<close> is there (the top level always is).\<close>

definition parent_ok :: "fs \<Rightarrow> path \<Rightarrow> bool" where
  "parent_ok fs p \<longleftrightarrow> length p \<le> 1 \<or> is_dir fs (butlast p)"

text \<open>
  \<^verbatim>\<open>p.stat().st_size\<close>: the length of a regular file, and for a directory the size the
  platform reports.
\<close>

definition stat_size :: "platform \<Rightarrow> fs \<Rightarrow> path \<Rightarrow> os_error + int" where
  "stat_size P fs p =
     (case fmlookup fs p of
        None \<Rightarrow> Inl (absent_error P fs p)
      | Some (File b) \<Rightarrow> Inr (int (length b))
      | Some Dir \<Rightarrow> Inr (dir_size P fs p))"

text \<open>
  \<^verbatim>\<open>d.mkdir(parents=True, exist_ok=True)\<close>, walking down from the top: a directory that
  is there is kept, a missing one is made, and a regular file in the way raises
  (\<^verbatim>\<open>FileExistsError\<close> when it is at \<^verbatim>\<open>d\<close> itself or on Windows,
  \<^verbatim>\<open>NotADirectoryError\<close> when it is above \<^verbatim>\<open>d\<close> on POSIX). A call that raises leaves
  the file system as it was.
\<close>

fun mkdir_from :: "platform \<Rightarrow> fs \<Rightarrow> path \<Rightarrow> string list \<Rightarrow> os_error + fs" where
  "mkdir_from P fs pre [] = Inr fs"
| "mkdir_from P fs pre (c # cs) =
     (case fmlookup fs (pre @ [c]) of
        Some (File b) \<Rightarrow> Inl (if cs = [] \<or> os_nt P then FileExistsError else NotADirectoryError)
      | Some Dir \<Rightarrow> mkdir_from P fs (pre @ [c]) cs
      | None \<Rightarrow> mkdir_from P (fmupd (pre @ [c]) Dir fs) (pre @ [c]) cs)"

definition mkdir_parents :: "platform \<Rightarrow> fs \<Rightarrow> path \<Rightarrow> os_error + fs" where
  "mkdir_parents P fs d = mkdir_from P fs [] d"

text \<open>
  \<^verbatim>\<open>open(p, "ab")\<close>: a regular file is opened as it is, a missing one is created empty in
  its directory, a directory raises.
\<close>

definition open_append :: "platform \<Rightarrow> fs \<Rightarrow> path \<Rightarrow> os_error + fs" where
  "open_append P fs p =
     (case fmlookup fs p of
        Some Dir \<Rightarrow> Inl (dir_error P)
      | Some (File b) \<Rightarrow> Inr fs
      | None \<Rightarrow> if parent_ok fs p then Inr (fmupd p (File []) fs)
                else Inl (absent_error P fs p))"

text \<open>\<^verbatim>\<open>out.write(chunk)\<close> on a file opened for appending.\<close>

definition file_write :: "fs \<Rightarrow> path \<Rightarrow> bytes \<Rightarrow> fs" where
  "file_write fs p chunk =
     (case fmlookup fs p of
        Some (File b) \<Rightarrow> fmupd p (File (b @ chunk)) fs
      | _ \<Rightarrow> fs)"

text \<open>
  Copying the tree at \<^verbatim>\<open>src\<close> to \<^verbatim>\<open>dst\<close>: what is at or below \<^verbatim>\<open>dst\<close> afterwards is
  what is at or below \<^verbatim>\<open>src\<close>. Removing a tree, and renaming one (copy, then remove).
\<close>

definition copy_tree :: "path \<Rightarrow> path \<Rightarrow> fs \<Rightarrow> fs" where
  "copy_tree src dst fs =
     fmadd (fmfilter (\<lambda>k. \<not> in_tree dst k) fs)
       (fmap_of_list (map (\<lambda>(k, v). (dst @ drop (length src) k, v))
          (filter (\<lambda>(k, v). in_tree src k) (sorted_list_of_fmap fs))))"

definition remove_tree :: "path \<Rightarrow> fs \<Rightarrow> fs" where
  "remove_tree src fs = fmfilter (\<lambda>k. \<not> in_tree src k) fs"

definition rename_tree :: "path \<Rightarrow> path \<Rightarrow> fs \<Rightarrow> fs" where
  "rename_tree src dst fs = remove_tree src (copy_tree src dst fs)"

definition dir_empty :: "fs \<Rightarrow> path \<Rightarrow> bool" where
  "dir_empty fs d \<longleftrightarrow> (\<forall>k |\<in>| fmdom fs. \<not> (in_tree d k \<and> k \<noteq> d))"

text \<open>
  \<^verbatim>\<open>os.replace(src, dst)\<close>. A regular file moves to \<^verbatim>\<open>dst\<close> and replaces a regular file
  there; a directory moves with all it holds, to a free name or (on POSIX) onto an empty
  directory. The call raises when the source is missing, when the kinds of source and
  destination do not fit, when the destination lies inside the source, and when the directory
  that is to hold the destination is missing.
\<close>

definition os_replace :: "platform \<Rightarrow> fs \<Rightarrow> path \<Rightarrow> path \<Rightarrow> os_error + fs" where
  "os_replace P fs src dst =
     (case fmlookup fs src of
        None \<Rightarrow> Inl (absent_error P fs src)
      | Some (File b) \<Rightarrow>
          (case fmlookup fs dst of
             Some Dir \<Rightarrow> Inl (dir_error P)
           | Some (File c) \<Rightarrow> Inr (fmupd dst (File b) (fmdrop src fs))
           | None \<Rightarrow> if parent_ok fs dst then Inr (fmupd dst (File b) (fmdrop src fs))
                     else Inl (absent_error P fs dst))
      | Some Dir \<Rightarrow>
          if src = dst then Inr fs
          else
            (case fmlookup fs dst of
               Some (File c) \<Rightarrow> Inl (if os_nt P then PermissionError else NotADirectoryError)
             | Some Dir \<Rightarrow>
                 if os_nt P then Inl PermissionError
                 else if in_tree src dst \<or> \<not> dir_empty fs dst then Inl OSError
                 else Inr (rename_tree src dst fs)
             | None \<Rightarrow>
                 if in_tree src dst then Inl OSError
                 else if parent_ok fs dst then Inr (rename_tree src dst fs)
                 else Inl (absent_error P fs dst)))"

text \<open>\<^verbatim>\<open>os.rename(src, dst)\<close>: as \<^verbatim>\<open>os.replace\<close>, but on Windows it raises when the
  destination exists.\<close>

definition os_rename :: "platform \<Rightarrow> fs \<Rightarrow> path \<Rightarrow> path \<Rightarrow> os_error + fs" where
  "os_rename P fs src dst =
     (if os_nt P \<and> exists fs src \<and> exists fs dst then Inl FileExistsError
      else os_replace P fs src dst)"

text \<open>\<^verbatim>\<open>p.unlink()\<close>\<close>

definition unlink :: "platform \<Rightarrow> fs \<Rightarrow> path \<Rightarrow> os_error + fs" where
  "unlink P fs p =
     (case fmlookup fs p of
        None \<Rightarrow> Inl (absent_error P fs p)
      | Some (File b) \<Rightarrow> Inr (fmdrop p fs)
      | Some Dir \<Rightarrow> Inl (dir_error P))"

text \<open>
  \<^verbatim>\<open>shutil.move(src, dst)\<close>, after the library: a destination that is a directory receives
  the source under its own name; the move is a rename when that works, and otherwise a copy
  followed by the removal of the source (\<^verbatim>\<open>copy2\<close> and \<^verbatim>\<open>unlink\<close> for a regular
  file; \<^verbatim>\<open>copytree\<close>, which makes the missing directories above the destination, and
  \<^verbatim>\<open>rmtree\<close> for a directory).
\<close>

definition move_to :: "platform \<Rightarrow> fs \<Rightarrow> path \<Rightarrow> path \<Rightarrow> path \<Rightarrow> os_error + fs" where
  "move_to P fs src dst real_dst =
     (case os_rename P fs src real_dst of
        Inr fs' \<Rightarrow> Inr fs'
      | Inl e \<Rightarrow>
          (case fmlookup fs src of
             None \<Rightarrow> Inl (absent_error P fs src)
           | Some Dir \<Rightarrow>
               if in_tree src dst then Inl ShutilError
               else if exists fs real_dst then Inl FileExistsError
               else
                 (case mkdir_parents P fs (butlast real_dst) of
                    Inl e' \<Rightarrow> Inl (absent_error P fs real_dst)
                  | Inr fs1 \<Rightarrow> Inr (rename_tree src real_dst fs1))
           | Some (File b) \<Rightarrow>
               (case fmlookup fs real_dst of
                  Some Dir \<Rightarrow> Inl (dir_error P)
                | Some (File c) \<Rightarrow> Inr (fmupd real_dst (File b) (fmdrop src fs))
                | None \<Rightarrow> if parent_ok fs real_dst
                          then Inr (fmupd real_dst (File b) (fmdrop src fs))
                          else Inl (absent_error P fs real_dst))))"

definition shutil_move :: "platform \<Rightarrow> fs \<Rightarrow> path \<Rightarrow> path \<Rightarrow> os_error + fs" where
  "shutil_move P fs src dst =
     (if is_dir fs dst then
        (if src = dst then os_rename P fs src dst
         else
           let real_dst = dst @ [path_name src] in
           if exists fs real_dst then Inl ShutilError
           else move_to P fs src dst real_dst)
      else move_to P fs src dst dst)"

subsection \<open>\<^verbatim>\<open>_unique_path\<close>\<close>

definition candidate :: "path \<Rightarrow> string \<Rightarrow> string \<Rightarrow> nat \<Rightarrow> path" where
  "candidate p stem sfx i = with_name p (stem @ '' ('' @ str_nat i @ '')'' @ sfx)"

text \<open>
  The loop of \<^verbatim>\<open>_unique_path\<close> ends because the file system holds finitely many files
  and different numbers give different candidates.
\<close>

lemma str_nat_nonempty: "str_nat n \<noteq> []"
  by (subst str_nat.simps) simp

lemma char_of_digit_inj:
  fixes a b :: nat
  assumes "a < 10" and "b < 10" and "(char_of (48 + a) :: char) = char_of (48 + b)"
  shows "a = b"
proof -
  from assms(3) have "(of_char (char_of (48 + a) :: char) :: nat) = of_char (char_of (48 + b) :: char)"
    by simp
  with assms(1,2) show ?thesis by (simp add: of_char_of)
qed

lemma str_nat_inj: "str_nat n = str_nat m \<Longrightarrow> n = m"
proof (induction n arbitrary: m rule: str_nat.induct)
  case (1 n)
  show ?case
  proof (cases "n < 10")
    case True
    note n = this
    show ?thesis
    proof (cases "m < 10")
      case True
      with n "1.prems" show ?thesis
        by (simp add: str_nat.simps[of n] str_nat.simps[of m] char_of_digit_inj)
    next
      case False
      with n "1.prems" str_nat_nonempty[of "m div 10"] show ?thesis
        by (simp add: str_nat.simps[of n] str_nat.simps[of m])
    qed
  next
    case False
    note n = this
    show ?thesis
    proof (cases "m < 10")
      case True
      with n "1.prems" str_nat_nonempty[of "n div 10"] show ?thesis
        by (simp add: str_nat.simps[of n] str_nat.simps[of m])
    next
      case False
      with n "1.prems" have e: "str_nat (n div 10) = str_nat (m div 10)"
        and d: "(char_of (48 + n mod 10) :: char) = char_of (48 + m mod 10)"
        by (simp_all add: str_nat.simps[of n] str_nat.simps[of m])
      from "1.IH"[OF n e] have "n div 10 = m div 10" .
      moreover from d have "n mod 10 = m mod 10"
        by (intro char_of_digit_inj) simp_all
      ultimately show ?thesis
        by (metis div_mult_mod_eq)
    qed
  qed
qed

lemma candidate_inj: "candidate p stem sfx i = candidate p stem sfx j \<Longrightarrow> i = j"
  by (simp add: candidate_def with_name_def str_nat_inj)

lemma finite_taken: "finite {j. exists fs (candidate p stem sfx j)}"
proof -
  have "{j. exists fs (candidate p stem sfx j)} = candidate p stem sfx -` fset (fmdom fs)"
    by (auto simp: exists_def fmdom_notI intro: fmdomI)
  moreover have "inj (candidate p stem sfx)"
    by (rule injI) (rule candidate_inj)
  ultimately show ?thesis
    by (simp add: finite_vimageI)
qed

text \<open>The \<^verbatim>\<open>while True\<close> loop of \<^verbatim>\<open>_unique_path\<close>, from the counter \<^verbatim>\<open>i\<close>.\<close>

function unique_loop :: "fs \<Rightarrow> path \<Rightarrow> string \<Rightarrow> string \<Rightarrow> nat \<Rightarrow> path" where
  "unique_loop fs p stem sfx i =
     (let cand = candidate p stem sfx i
      in if \<not> exists fs cand then cand else unique_loop fs p stem sfx (i + 1))"
  by pat_completeness auto
termination
proof (relation "measure (\<lambda>(fs, p, stem, sfx, i). card {j. i \<le> j \<and> exists fs (candidate p stem sfx j)})")
  show "wf (measure (\<lambda>(fs, p, stem, sfx, i). card {j. i \<le> j \<and> exists fs (candidate p stem sfx j)}))"
    by simp
next
  fix fs :: fs and p stem sfx i cand
  assume c: "cand = candidate p stem sfx i" and e: "\<not> \<not> exists fs cand"
  let ?A = "{j. i \<le> j \<and> exists fs (candidate p stem sfx j)}"
  let ?B = "{j. i + 1 \<le> j \<and> exists fs (candidate p stem sfx j)}"
  have fin: "finite ?A"
    by (rule finite_subset[OF _ finite_taken[of fs p stem sfx]]) auto
  have "i \<in> ?A" "i \<notin> ?B" "?B \<subseteq> ?A" using c e by auto
  then have "?B \<subset> ?A" by blast
  then have "card ?B < card ?A" by (rule psubset_card_mono[OF fin])
  then show "((fs, p, stem, sfx, i + 1), (fs, p, stem, sfx, i))
      \<in> measure (\<lambda>(fs, p, stem, sfx, i). card {j. i \<le> j \<and> exists fs (candidate p stem sfx j)})"
    by simp
qed

declare unique_loop.simps [simp del]

definition unique_path :: "fs \<Rightarrow> path \<Rightarrow> path" where
  "unique_path fs p =
     (if \<not> exists fs p then p
      else unique_loop fs p (name_stem (path_name p)) (name_suffix (path_name p)) 1)"

subsection \<open>\<^verbatim>\<open>_atomic_move_with_retry\<close>\<close>

text \<open>
  The environment of a move: for each attempt of the loop, whether \<^verbatim>\<open>os.replace\<close> raises
  for a reason that is not in the file system, whether \<^verbatim>\<open>shutil.move\<close> does, either
  before it changes anything or after the copy at the destination is made and the removal of
  the source fails, and whether the \<^verbatim>\<open>tmp.unlink()\<close> of the finish handler does. A call
  that the environment does not fail runs on the file system.
\<close>

datatype move_fault = MoveRaises os_error | CopiedThenRaises os_error

record io_env =
  replace_fault :: "nat \<Rightarrow> os_error option"
  move_fault :: "move_fault option"
  unlink_fault :: "os_error option"

text \<open>The \<^verbatim>\<open>os.replace\<close> call of attempt \<^verbatim>\<open>i\<close>.\<close>

definition replace_attempt :: "io_env \<Rightarrow> platform \<Rightarrow> fs \<Rightarrow> path \<Rightarrow> path \<Rightarrow> nat \<Rightarrow> os_error + fs" where
  "replace_attempt E P fs src dst i =
     (case replace_fault E i of
        Some e \<Rightarrow> Inl e
      | None \<Rightarrow> os_replace P fs src dst)"

text \<open>
  The \<^verbatim>\<open>for i in range(attempts)\<close> loop: a successful \<^verbatim>\<open>os.replace\<close> returns, a failed
  one is remembered as \<^verbatim>\<open>last_err\<close> (every \<^typ>\<open>os_error\<close> is an \<^verbatim>\<open>OSError\<close>, which the
  loop catches; the pause between attempts changes no state). When the attempts are used up
  the result is \<^verbatim>\<open>last_err\<close>.
\<close>

fun replace_loop :: "io_env \<Rightarrow> platform \<Rightarrow> fs \<Rightarrow> path \<Rightarrow> path \<Rightarrow> nat list \<Rightarrow> os_error option
    \<Rightarrow> os_error option + fs" where
  "replace_loop E P fs src dst [] last_err = Inl last_err"
| "replace_loop E P fs src dst (i # is) last_err =
     (case replace_attempt E P fs src dst i of
        Inr fs' \<Rightarrow> Inr fs'
      | Inl e \<Rightarrow> replace_loop E P fs src dst is (Some e))"

text \<open>The \<^verbatim>\<open>shutil.move\<close> call of the fallback; a failed call returns the file system it
  leaves behind.\<close>

definition move_attempt :: "io_env \<Rightarrow> platform \<Rightarrow> fs \<Rightarrow> path \<Rightarrow> path \<Rightarrow> (os_error \<times> fs) + fs" where
  "move_attempt E P fs src dst =
     (case move_fault E of
        Some (MoveRaises e) \<Rightarrow> Inl (e, fs)
      | Some (CopiedThenRaises e) \<Rightarrow>
          Inl (e, case fmlookup fs src of
                    None \<Rightarrow> fs
                  | Some (File b) \<Rightarrow> fmupd dst (File b) fs
                  | Some Dir \<Rightarrow> copy_tree src dst fs)
      | None \<Rightarrow>
          (case shutil_move P fs src dst of
             Inr fs' \<Rightarrow> Inr fs'
           | Inl e \<Rightarrow> Inl (e, fs)))"

definition atomic_move_with_retry ::
    "io_env \<Rightarrow> platform \<Rightarrow> fs \<Rightarrow> path \<Rightarrow> path \<Rightarrow> nat \<Rightarrow> (os_error \<times> fs) + fs" where
  "atomic_move_with_retry E P fs src dst attempts =
     (case replace_loop E P fs src dst [0..<attempts] None of
        Inr fs' \<Rightarrow> Inr fs'
      | Inl last_err \<Rightarrow>
          (case move_attempt E P fs src dst of
             Inr fs' \<Rightarrow> Inr fs'
           | Inl (e, fs') \<Rightarrow> Inl (case last_err of None \<Rightarrow> e | Some l \<Rightarrow> l, fs')))"

subsection \<open>Responses\<close>

datatype jval = JInt int | JBool bool | JStr string

text \<open>
  \<^verbatim>\<open>Json code body\<close> is \<^verbatim>\<open>jsonify(body), code\<close>; \<^verbatim>\<open>Abort code message\<close> is
  \<^verbatim>\<open>abort(code, message)\<close>; \<^verbatim>\<open>AbortFinalize e\<close> is
  \<^verbatim>\<open>abort(500, f"finalize failed: {e}")\<close>; \<^verbatim>\<open>Unhandled e\<close> is an exception that leaves
  the handler.
\<close>

datatype response =
    Json nat "(string \<times> jval) list"
  | Abort nat string
  | AbortFinalize os_error
  | Unhandled py_exc

subsection \<open>\<^verbatim>\<open>upload_status\<close>\<close>

definition upload_status :: "platform \<Rightarrow> fs \<Rightarrow> args \<Rightarrow> response \<times> fs" where
  "upload_status P fs a =
     (let name = args_get a ''name'' [] in
      case int_arg P a ''size'' of
        Inl e \<Rightarrow> (Unhandled e, fs)
      | Inr sz \<Rightarrow>
         (let relpath = args_get a ''relpath'' [] in
          if name = [] \<or> sz < 0 then (Abort 400 ''name/size required'', fs)
          else
            let tmp = tmp_path P name relpath in
            if exists fs tmp then
              (case stat_size P fs tmp of
                 Inl e \<Rightarrow> (Unhandled (OSErr e), fs)
               | Inr n \<Rightarrow> (Json 200 [(''received'', JInt n)], fs))
            else
              let final = final_path P name relpath in
              if exists fs final then
                (case stat_size P fs final of
                   Inl e \<Rightarrow> (Unhandled (OSErr e), fs)
                 | Inr n \<Rightarrow>
                     if sz = 0 \<or> n = sz
                     then (Json 200 [(''received'', JInt (if sz \<noteq> 0 then sz else n)),
                                     (''complete'', JBool True)], fs)
                     else (Json 200 [(''received'', JInt n)], fs))
              else (Json 200 [(''received'', JInt 0)], fs)))"

subsection \<open>\<^verbatim>\<open>upload_chunk\<close>\<close>

definition READ_SIZE :: nat where
  "READ_SIZE = 8 * 1024 * 1024"

text \<open>
  The read-and-write loop: \<^verbatim>\<open>request.stream.read(READ_SIZE)\<close> takes the next bytes of the
  body, an empty read ends the loop, and every chunk is appended and counted.
\<close>

function copy_stream :: "fs \<Rightarrow> path \<Rightarrow> bytes \<Rightarrow> int \<Rightarrow> fs \<times> int" where
  "copy_stream fs out stream written =
     (let chunk = take READ_SIZE stream in
      if chunk = [] then (fs, written)
      else copy_stream (file_write fs out chunk) out (drop READ_SIZE stream)
             (written + int (length chunk)))"
  by pat_completeness auto
termination
  by (relation "measure (\<lambda>(fs, out, stream, written). length stream)")
     (auto simp: READ_SIZE_def)

declare copy_stream.simps [simp del]

definition upload_chunk :: "platform \<Rightarrow> fs \<Rightarrow> args \<Rightarrow> bytes \<Rightarrow> response \<times> fs" where
  "upload_chunk P fs a body =
     (let name = args_get a ''name'' [] in
      case int_arg P a ''size'' of
        Inl e \<Rightarrow> (Unhandled e, fs)
      | Inr sz \<Rightarrow>
         (case int_arg P a ''offset'' of
            Inl e \<Rightarrow> (Unhandled e, fs)
          | Inr offset \<Rightarrow>
             (let relpath = args_get a ''relpath'' [] in
              if name = [] \<or> sz < 0 \<or> offset < 0
              then (Abort 400 ''name/size/offset required'', fs)
              else
                let tmp = tmp_path P name relpath in
                case (if exists fs tmp then stat_size P fs tmp else Inr 0) of
                  Inl e \<Rightarrow> (Unhandled (OSErr e), fs)
                | Inr current \<Rightarrow>
                    if offset \<noteq> current then (Json 409 [(''received'', JInt current)], fs)
                    else
                      (case mkdir_parents P fs (butlast tmp) of
                         Inl e \<Rightarrow> (Unhandled (OSErr e), fs)
                       | Inr fs1 \<Rightarrow>
                           (case open_append P fs1 tmp of
                              Inl e \<Rightarrow> (Unhandled (OSErr e), fs1)
                            | Inr fs2 \<Rightarrow>
                                let (fs3, written) = copy_stream fs2 tmp body 0;
                                    received = current + written
                                in if received > sz \<and> sz > 0
                                   then (Abort 400 ''received more bytes than declared size'', fs3)
                                   else (Json 200 [(''received'', JInt received)], fs3))))))"

subsection \<open>\<^verbatim>\<open>upload_finish\<close>\<close>

text \<open>The \<^verbatim>\<open>tmp.unlink()\<close> inside \<^verbatim>\<open>try\<close>: what it raises is dropped by the handler.\<close>

definition unlink_attempt :: "io_env \<Rightarrow> platform \<Rightarrow> fs \<Rightarrow> path \<Rightarrow> os_error + fs" where
  "unlink_attempt E P fs p =
     (case unlink_fault E of
        Some e \<Rightarrow> Inl e
      | None \<Rightarrow> unlink P fs p)"

definition ok_body :: "platform \<Rightarrow> path \<Rightarrow> string option \<Rightarrow> (string \<times> jval) list" where
  "ok_body P p note =
     [(''ok'', JBool True), (''path'', JStr (str_path P p))]
     @ (case note of None \<Rightarrow> [] | Some n \<Rightarrow> [(''note'', JStr n)])"

definition upload_finish :: "platform \<Rightarrow> io_env \<Rightarrow> fs \<Rightarrow> args \<Rightarrow> response \<times> fs" where
  "upload_finish P E fs a =
     (let name = args_get a ''name'' [] in
      case int_arg P a ''size'' of
        Inl e \<Rightarrow> (Unhandled e, fs)
      | Inr sz \<Rightarrow>
         (let relpath = args_get a ''relpath'' [] in
          if name = [] then (Abort 400 ''name required'', fs)
          else
            let tmp = tmp_path P name relpath;
                final_pref = final_path P name relpath in
            if exists fs final_pref \<and> \<not> exists fs tmp
               \<and> (sz = 0 \<or> stat_size P fs final_pref = Inr sz)
            then (Json 200 (ok_body P final_pref (Some ''already finalized'')), fs)
            else
              let final_pref = (if exists fs final_pref \<and> exists fs tmp
                                then unique_path fs final_pref else final_pref) in
              if \<not> exists fs tmp then
                (if exists fs final_pref
                 then (Json 200 (ok_body P final_pref (Some ''already finalized'')), fs)
                 else (Abort 404 ''no partial upload found'', fs))
              else
                (case mkdir_parents P fs (butlast final_pref) of
                   Inl e \<Rightarrow> (Unhandled (OSErr e), fs)
                 | Inr fs1 \<Rightarrow>
                     (case atomic_move_with_retry E P fs1 tmp final_pref 10 of
                        Inr fs2 \<Rightarrow> (Json 200 (ok_body P final_pref None), fs2)
                      | Inl (FileNotFoundError, fs2) \<Rightarrow>
                          if exists fs2 final_pref
                          then (Json 200 (ok_body P final_pref (Some ''finalized concurrently'')), fs2)
                          else (Abort 404 ''partial vanished during finalize'', fs2)
                      | Inl (e, fs2) \<Rightarrow>
                          if exists fs2 final_pref
                             \<and> (sz = 0 \<or> stat_size P fs2 final_pref = Inr sz)
                          then (Json 200 (ok_body P final_pref (Some ''final existed after error'')),
                                (case unlink_attempt E P fs2 tmp of Inl _ \<Rightarrow> fs2 | Inr fs3 \<Rightarrow> fs3))
                          else (AbortFinalize e, fs2)))))"

subsection \<open>Sequences of requests\<close>

text \<open>A finish request comes with the environment of its move.\<close>

datatype request = StatusReq args | ChunkReq args bytes | FinishReq io_env args

fun serve :: "platform \<Rightarrow> fs \<Rightarrow> request \<Rightarrow> response \<times> fs" where
  "serve P fs (StatusReq a) = upload_status P fs a"
| "serve P fs (ChunkReq a body) = upload_chunk P fs a body"
| "serve P fs (FinishReq E a) = upload_finish P E fs a"

text \<open>The file systems a sequence of requests goes through, the first one included.\<close>

fun trace :: "platform \<Rightarrow> fs \<Rightarrow> request list \<Rightarrow> fs list" where
  "trace P fs [] = [fs]"
| "trace P fs (r # rs) = fs # trace P (snd (serve P fs r)) rs"

definition req_args :: "request \<Rightarrow> args" where
  "req_args r = (case r of StatusReq a \<Rightarrow> a | ChunkReq a b \<Rightarrow> a | FinishReq E a \<Rightarrow> a)"

section \<open>Properties\<close>

text \<open>
  The handlers first read and check their parameters. The properties of the protocol below
  are about requests that pass this check (a name that is not empty, numbers that parse and
  are not negative); what the check does with the others is the subject of the property on
  validation.
\<close>

subsection \<open>Example data\<close>

text \<open>
  A POSIX host whose directories have the size 4096, with the default limit on the digits
  of a numeral.
\<close>

definition P0 :: platform where
  "P0 = \<lparr>os_nt = False, ascii_fold = (\<lambda>s. s), dir_size = (\<lambda>fs p. 4096),
          int_max_str_digits = 4300\<rparr>"

text \<open>
  An environment in which no call fails for an outside reason, and two in which another
  process holds the partial file, so that every \<^verbatim>\<open>os.replace\<close> and the \<^verbatim>\<open>unlink\<close>
  raise \<^verbatim>\<open>PermissionError\<close>: in the first \<^verbatim>\<open>shutil.move\<close> raises it before it
  changes anything, in the second after it has made the copy at the destination.
\<close>

definition E0 :: io_env where
  "E0 = \<lparr>replace_fault = (\<lambda>i. None), move_fault = None, unlink_fault = None\<rparr>"

definition E_locked :: io_env where
  "E_locked = \<lparr>replace_fault = (\<lambda>i. Some PermissionError),
               move_fault = Some (MoveRaises PermissionError),
               unlink_fault = Some PermissionError\<rparr>"

definition E_copied :: io_env where
  "E_copied = \<lparr>replace_fault = (\<lambda>i. Some PermissionError),
               move_fault = Some (CopiedThenRaises PermissionError),
               unlink_fault = Some PermissionError\<rparr>"

text \<open>A relative path that climbs twice, once with each separator.\<close>

definition climbing_rel :: string where
  "climbing_rel = ''..'' @ [CHR 0x5C] @ ''../etc''"

text \<open>
  Requests for the target \<^verbatim>\<open>a.txt\<close> at the top of the upload root, and for the target
  \<^verbatim>\<open>a.txt\<close> in the directory \<^verbatim>\<open>sub\<close>.
\<close>

definition chunk_args :: "string \<Rightarrow> string \<Rightarrow> args" where
  "chunk_args sz off = [''name'' \<mapsto> ''a.txt'', ''size'' \<mapsto> sz, ''offset'' \<mapsto> off]"

definition status_args :: "string \<Rightarrow> args" where
  "status_args sz = [''name'' \<mapsto> ''a.txt'', ''size'' \<mapsto> sz]"

definition sub_args :: "string \<Rightarrow> string \<Rightarrow> args" where
  "sub_args sz off = [''name'' \<mapsto> ''a.txt'', ''relpath'' \<mapsto> ''sub'', ''size'' \<mapsto> sz,
                      ''offset'' \<mapsto> off]"

definition name_only_args :: args where
  "name_only_args = [''name'' \<mapsto> ''a.txt'']"

definition size_only_args :: args where
  "size_only_args = [''size'' \<mapsto> ''5'']"

definition a_part :: path where
  "a_part = TMP_DIR @ [''a.txt.part'']"

definition a_final :: path where
  "a_final = UPLOAD_ROOT @ [''a.txt'']"

text \<open>The first two names that make room for \<^verbatim>\<open>a.txt\<close>.\<close>

definition a_one :: path where
  "a_one = UPLOAD_ROOT @ [''a (1).txt'']"

definition a_two :: path where
  "a_two = UPLOAD_ROOT @ [''a (2).txt'']"

definition sub_part :: path where
  "sub_part = TMP_DIR @ [''sub'', ''a.txt.part'']"

text \<open>
  The file system after the two \<^verbatim>\<open>mkdir\<close> calls at the start of the server: the upload
  root, the staging directory and the directories above them.
\<close>

definition fs_start :: fs where
  "fs_start = fmupd TMP_DIR Dir (fmupd UPLOAD_ROOT Dir
                (fmupd [''D:'', ''iphone8OLD''] Dir (fmupd [''D:''] Dir fmempty)))"

text \<open>
  The preferred name and the first name that makes room are taken while a partial file
  waits.
\<close>

definition fs_collide :: fs where
  "fs_collide = fmupd a_part (File ''new'') (fmupd a_final (File ''old'')
                  (fmupd a_one (File ''x'') fs_start))"

text \<open>
  A partial file waits in the staging directory \<^verbatim>\<open>sub\<close>, and a regular file named
  \<^verbatim>\<open>sub\<close> stands in the upload root where the directory of the final path has to be.
\<close>

definition fs_blocked :: fs where
  "fs_blocked = fmupd sub_part (File ''he'') (fmupd (TMP_DIR @ [''sub'']) Dir
                  (fmupd (UPLOAD_ROOT @ [''sub'']) (File ''x'') fs_start))"

text \<open>A partial file of three bytes; a directory at the staging path; a regular file where
  the staging directory \<^verbatim>\<open>sub\<close> has to be; a final file; a partial file of two bytes.\<close>

definition fs_abc :: fs where
  "fs_abc = fmupd a_part (File ''abc'') fs_start"

definition fs_dir_part :: fs where
  "fs_dir_part = fmupd a_part Dir fs_start"

definition fs_tmp_blocked :: fs where
  "fs_tmp_blocked = fmupd (TMP_DIR @ [''sub'']) (File ''x'') fs_start"

definition fs_done :: fs where
  "fs_done = fmupd a_final (File ''hello'') fs_start"

definition fs_he :: fs where
  "fs_he = fmupd a_part (File ''he'') fs_start"

text \<open>A chunk at the right offset, then the finish call, for the same target.\<close>

definition grow_then_finish :: "request list" where
  "grow_then_finish = [ChunkReq (chunk_args ''10'' ''3'') ''de'', FinishReq E0 (status_args ''10'')]"

subsection \<open>Notions used in the statements\<close>

text \<open>The staging path and the preferred final path of the target a request names.\<close>

abbreviation req_tmp :: "platform \<Rightarrow> args \<Rightarrow> path" where
  "req_tmp P a \<equiv> tmp_path P (args_get a ''name'' []) (args_get a ''relpath'' [])"

abbreviation req_final :: "platform \<Rightarrow> args \<Rightarrow> path" where
  "req_final P a \<equiv> final_path P (args_get a ''name'' []) (args_get a ''relpath'' [])"

text \<open>
  The size the handlers find at a path, \<^verbatim>\<open>p.stat().st_size if p.exists() else 0\<close>: the
  length of a regular file, zero when nothing is there, and the size the platform reports
  when a directory is there.
\<close>

definition size_at :: "platform \<Rightarrow> fs \<Rightarrow> path \<Rightarrow> int" where
  "size_at P fs p =
     (case fmlookup fs p of
        None \<Rightarrow> 0
      | Some (File b) \<Rightarrow> int (length b)
      | Some Dir \<Rightarrow> dir_size P fs p)"

text \<open>The bytes received so far for a partial file, none when the file does not exist.\<close>

definition partial_bytes :: "fs \<Rightarrow> path \<Rightarrow> bytes" where
  "partial_bytes fs p = (case fmlookup fs p of Some (File b) \<Rightarrow> b | _ \<Rightarrow> [])"

text \<open>The file system once the directories down to \<^verbatim>\<open>d\<close> are made (as it was, when
  \<^verbatim>\<open>mkdir\<close> raises).\<close>

definition made_dirs :: "platform \<Rightarrow> fs \<Rightarrow> path \<Rightarrow> fs" where
  "made_dirs P fs d = (case mkdir_parents P fs d of Inl e \<Rightarrow> fs | Inr fs1 \<Rightarrow> fs1)"

text \<open>
  The environment lets the move through: one of the ten \<^verbatim>\<open>os.replace\<close> calls, or the
  \<^verbatim>\<open>shutil.move\<close> call, does not fail for an outside reason.
\<close>

definition move_ok :: "io_env \<Rightarrow> bool" where
  "move_ok E \<longleftrightarrow> list_ex (\<lambda>i. replace_fault E i = None) [0..<10] \<or> move_fault E = None"

subsection \<open>Path sanitisation\<close>

text \<open>
  A plain segment is one path component that names an entry below the directory it is
  appended to: not empty, not \<^verbatim>\<open>.\<close> or \<^verbatim>\<open>..\<close>, and free of both separators. A path is
  confined under a root when it is the root followed by at least one plain segment.
\<close>

definition plain_segment :: "string \<Rightarrow> bool" where
  "plain_segment s \<longleftrightarrow>
     s \<noteq> [] \<and> s \<noteq> ''.'' \<and> s \<noteq> ''..'' \<and> CHR ''/'' \<notin> set s \<and> CHR 0x5C \<notin> set s"

definition confined :: "path \<Rightarrow> path \<Rightarrow> bool" where
  "confined root p \<longleftrightarrow> (\<exists>segs. p = root @ segs \<and> segs \<noteq> [] \<and> list_all plain_segment segs)"


lemma split_on_nonempty: "split_on c s \<noteq> []"
  by (induction s) (auto split: list.splits)

lemma split_on_member: "w \<in> set (split_on c s) \<Longrightarrow> x \<in> set w \<Longrightarrow> x \<in> set s"
proof (induction s arbitrary: w)
  case Nil
  then show ?case by simp
next
  case (Cons a s)
  show ?case
  proof (cases "a = c")
    case True
    with Cons.prems Cons.IH show ?thesis by auto
  next
    case False
    obtain v vs where v: "split_on c s = v # vs"
      using split_on_nonempty[of c s] by (cases "split_on c s") auto
    with False Cons.prems have "w = a # v \<or> w \<in> set vs" by simp
    then show ?thesis
    proof
      assume "w = a # v"
      with Cons.prems(2) have "x = a \<or> x \<in> set v" by simp
      with Cons.IH[of v] v show ?thesis by auto
    next
      assume "w \<in> set vs"
      with Cons.IH[of w] v Cons.prems(2) show ?thesis by simp
    qed
  qed
qed

lemma split_on_subset: "w \<in> set (split_on c s) \<Longrightarrow> set w \<subseteq> set s"
  using split_on_member by blast

lemma split_on_no_sep: "w \<in> set (split_on c s) \<Longrightarrow> c \<notin> set w"
proof (induction s arbitrary: w)
  case Nil
  then show ?case by simp
next
  case (Cons a s)
  show ?case
  proof (cases "a = c")
    case True
    with Cons.prems Cons.IH show ?thesis by auto
  next
    case False
    obtain v vs where v: "split_on c s = v # vs"
      using split_on_nonempty[of c s] by (cases "split_on c s") auto
    with False Cons.prems have "w = a # v \<or> w \<in> set vs" by simp
    with Cons.IH[of v] Cons.IH[of w] v False show ?thesis by auto
  qed
qed

lemma set_strip_by: "set (strip_by p s) \<subseteq> set s"
proof
  fix x assume "x \<in> set (strip_by p s)"
  then have "x \<in> set (dropWhile p (rev (dropWhile p s)))"
    by (simp add: strip_by_def)
  then have "x \<in> set (rev (dropWhile p s))" by (rule set_dropWhileD)
  then have "x \<in> set (dropWhile p s)" by simp
  then show "x \<in> set s" by (rule set_dropWhileD)
qed

lemma replace_char_absent: "a \<noteq> b \<Longrightarrow> a \<notin> set (replace_char a b s)"
  by (auto simp: replace_char_def)

lemma take_255_dot: "s \<noteq> ''.'' \<Longrightarrow> take 255 s \<noteq> ''.''"
proof
  assume a: "s \<noteq> ''.''" and t: "take 255 s = ''.''"
  from t have "length (take 255 s) = 1" by simp
  then have "length s \<le> 255" by (simp add: min_def split: if_splits)
  with t a show False by simp
qed

lemma take_255_dotdot: "s \<noteq> ''..'' \<Longrightarrow> take 255 s \<noteq> ''..''"
proof
  assume a: "s \<noteq> ''..''" and t: "take 255 s = ''..''"
  from t have "length (take 255 s) = 2" by simp
  then have "length s \<le> 255" by (simp add: min_def split: if_splits)
  with t a show False by simp
qed

lemma plain_take:
  assumes "s \<noteq> []" "s \<noteq> ''.''" "s \<noteq> ''..''" "CHR ''/'' \<notin> set s" "CHR 0x5C \<notin> set s"
  shows "plain_segment (take 255 s)"
  using assms take_255_dot[of s] take_255_dotdot[of s]
  by (auto simp: plain_segment_def dest: in_set_takeD)

lemma relpath_loop_plain:
  assumes "list_all plain_segment parts"
    and "\<forall>raw \<in> set raws. CHR ''/'' \<notin> set raw \<and> CHR 0x5C \<notin> set raw"
  shows "list_all plain_segment (relpath_loop raws parts)"
  using assms
proof (induction raws parts rule: relpath_loop.induct)
  case (1 parts)
  then show ?case by simp
next
  case (2 raw raws parts)
  let ?seg = "strip raw"
  show ?case
  proof (cases "?seg = [] \<or> ?seg = ''.'' \<or> ?seg = ''..''")
    case True
    with 2 show ?thesis by simp
  next
    case False
    let ?seg' = "if \<not> SAFE_SEG_match ?seg then ''_'' else ?seg"
    have sub: "set ?seg \<subseteq> set raw"
      by (simp add: strip_def set_strip_by)
    with "2.prems"(2) have nosep: "CHR ''/'' \<notin> set ?seg" "CHR 0x5C \<notin> set ?seg"
      by auto
    have "plain_segment (take 255 ?seg')"
    proof (cases "SAFE_SEG_match ?seg")
      case True
      with False nosep show ?thesis by (simp add: plain_take)
    next
      case False
      then show ?thesis by (simp add: plain_segment_def)
    qed
    with "2.prems"(1) have parts': "list_all plain_segment (parts @ [take 255 ?seg'])"
      by simp
    show ?thesis
    proof (cases "length (parts @ [take 255 ?seg']) \<ge> 50")
      case True
      with False parts' show ?thesis by (simp add: Let_def)
    next
      case ge: False
      from "2.IH"(2)[OF refl False refl refl ge parts'] "2.prems"(2)
      have "list_all plain_segment (relpath_loop raws (parts @ [take 255 ?seg']))" by simp
      with False ge show ?thesis by (simp add: Let_def)
    qed
  qed
qed

lemma safe_relpath_plain: "list_all plain_segment (safe_relpath rel)"
proof -
  let ?s = "replace_char (CHR 0x5C) (CHR ''/'') rel"
  have "\<forall>raw \<in> set (split_on (CHR ''/'') ?s). CHR ''/'' \<notin> set raw \<and> CHR 0x5C \<notin> set raw"
  proof
    fix raw assume r: "raw \<in> set (split_on (CHR ''/'') ?s)"
    have "CHR ''/'' \<notin> set raw" using r by (rule split_on_no_sep)
    moreover have "CHR 0x5C \<notin> set raw"
      using split_on_subset[OF r] replace_char_absent[of "CHR 0x5C" "CHR ''/''" rel] by auto
    ultimately show "CHR ''/'' \<notin> set raw \<and> CHR 0x5C \<notin> set raw" ..
  qed
  then show ?thesis
    unfolding safe_relpath_def by (intro relpath_loop_plain) simp_all
qed

lemma strip_by_hd: "strip_by p s \<noteq> [] \<Longrightarrow> \<not> p (hd (strip_by p s))"
proof -
  assume ne: "strip_by p s \<noteq> []"
  let ?t = "dropWhile p s"
  let ?k = "length (takeWhile p (rev ?t))"
  have eq: "strip_by p s = take (length ?t - ?k) ?t"
    by (simp add: strip_by_def dropWhile_eq_drop[of p "rev ?t"] rev_drop)
  with ne have pos: "0 < length ?t - ?k" and tne: "?t \<noteq> []" by auto
  from pos have "hd (take (length ?t - ?k) ?t) = hd ?t"
    by (cases ?t; cases "length ?t - ?k") auto
  moreover from tne have "\<not> p (hd ?t)" by (rule hd_dropWhile)
  ultimately show ?thesis using eq by simp
qed

lemma filename_keep_no_sep: "\<not> filename_keep (CHR ''/'')" "\<not> filename_keep (CHR 0x5C)"
  by (simp_all add: filename_keep_def is_upper_def is_lower_def is_digit_def)

lemma secure_filename_keep: "list_all filename_keep (secure_filename P n)"
proof -
  have k: "list_all filename_keep (strip_by q (filter filename_keep t))" for q t
    using set_strip_by[of q "filter filename_keep t"] by (auto simp: list_all_iff)
  have u: "filename_keep (CHR ''_'')" by (simp add: filename_keep_def)
  show ?thesis
    unfolding secure_filename_def Let_def using k u by simp
qed

lemma secure_filename_hd:
  "secure_filename P n \<noteq> [] \<Longrightarrow> hd (secure_filename P n) \<noteq> CHR ''.''"
  unfolding secure_filename_def Let_def
  using strip_by_hd[of "\<lambda>c. c \<in> set ''._''"]
  by (auto split: if_splits)

lemma plain_of_keep:
  assumes "s \<noteq> []" "hd s \<noteq> CHR ''.''" "list_all filename_keep s"
  shows "plain_segment s"
proof -
  from assms(3) have "CHR ''/'' \<notin> set s" "CHR 0x5C \<notin> set s"
    using filename_keep_no_sep by (auto simp: list_all_iff)
  moreover from assms(1,2) have "s \<noteq> ''.''" "s \<noteq> ''..''" by auto
  ultimately show ?thesis using assms(1) by (simp add: plain_segment_def)
qed

lemma safe_name_keep: "list_all filename_keep (safe_name P n)"
  using secure_filename_keep[of P n]
  by (simp add: safe_name_def Let_def filename_keep_def is_upper_def is_lower_def is_digit_def)

lemma safe_name_nonempty: "safe_name P n \<noteq> []"
  by (simp add: safe_name_def Let_def)

lemma safe_name_hd: "hd (safe_name P n) \<noteq> CHR ''.''"
  using secure_filename_hd[of P n] by (simp add: safe_name_def Let_def)

lemma safe_name_plain: "plain_segment (safe_name P n)"
  by (rule plain_of_keep[OF safe_name_nonempty safe_name_hd safe_name_keep])

lemma part_name_plain: "plain_segment (safe_name P n @ ''.part'')"
proof -
  have "list_all filename_keep (safe_name P n @ ''.part'')"
    using safe_name_keep[of P n]
    by (simp add: filename_keep_def is_upper_def is_lower_def is_digit_def)
  moreover have "hd (safe_name P n @ ''.part'') \<noteq> CHR ''.''"
    using safe_name_hd[of P n] safe_name_nonempty[of P n] by simp
  ultimately show ?thesis by (intro plain_of_keep) simp_all
qed


text \<open>
  C5. Whatever relative path the client sends, every segment of \<^verbatim>\<open>_safe_relpath\<close>'s result
  is plain (not empty, not \<^verbatim>\<open>.\<close> or \<^verbatim>\<open>..\<close>, no separator inside), and the staging path and
  the final path derived from it are the staging root and the upload root followed by plain
  segments only, so both stay strictly below their root.
\<close>

theorem relpath_traversal_free:
  "list_all plain_segment (safe_relpath rel)
   \<and> confined TMP_DIR (tmp_path P name rel)
   \<and> confined UPLOAD_ROOT (final_path P name rel)"
proof -
  have r: "list_all plain_segment (safe_relpath rel)" by (rule safe_relpath_plain)
  have "confined TMP_DIR (tmp_path P name rel)"
    unfolding confined_def tmp_path_def using r part_name_plain[of P name] by simp
  moreover have "confined UPLOAD_ROOT (final_path P name rel)"
    unfolding confined_def final_path_def using r safe_name_plain[of P name] by simp
  ultimately show ?thesis using r by simp
qed

lemma safe_relpath_example: "safe_relpath climbing_rel = [''etc'']"
  by code_simp

lemma safe_name_example: "safe_name P0 ''a.txt'' = ''a.txt''"
  by code_simp

theorem relpath_traversal_free_witness:
  "safe_relpath climbing_rel = [''etc'']
   \<and> list_all plain_segment (safe_relpath climbing_rel)
   \<and> tmp_path P0 ''a.txt'' climbing_rel = TMP_DIR @ [''etc'', ''a.txt.part'']
   \<and> confined TMP_DIR (tmp_path P0 ''a.txt'' climbing_rel)
   \<and> final_path P0 ''a.txt'' climbing_rel = UPLOAD_ROOT @ [''etc'', ''a.txt'']
   \<and> confined UPLOAD_ROOT (final_path P0 ''a.txt'' climbing_rel)"
  using relpath_traversal_free[of climbing_rel P0 "''a.txt''"]
  by (simp add: safe_relpath_example safe_name_example tmp_path_def final_path_def)

subsection \<open>Directories\<close>

lemma fmupd_same: "fmlookup m k = Some v \<Longrightarrow> fmupd k v m = m"
  by (rule fmap_ext) auto

lemma fmupd_twice: "fmupd k v (fmupd k w m) = fmupd k v m"
  by (rule fmap_ext) auto

lemma current_size:
  "(if exists fs p then stat_size P fs p else Inr 0) = Inr (size_at P fs p)"
  by (simp add: exists_def stat_size_def size_at_def split: option.splits node.splits)

lemma stat_size_exists: "exists fs p \<Longrightarrow> stat_size P fs p = Inr (size_at P fs p)"
  by (simp add: exists_def stat_size_def size_at_def split: option.splits node.splits)

lemma blocked_iff:
  "blocked fs d \<longleftrightarrow> (\<exists>j. 0 < j \<and> j \<le> length d \<and> is_file fs (take j d))"
proof -
  have "blocked fs d \<longleftrightarrow> (\<exists>k. 1 \<le> k \<and> k < Suc (length d) \<and> is_file fs (take k d))"
    by (auto simp: blocked_def list_ex_iff simp del: upt_Suc)
  also have "\<dots> \<longleftrightarrow> (\<exists>j. 0 < j \<and> j \<le> length d \<and> is_file fs (take j d))"
    by (metis One_nat_def Suc_le_eq less_Suc_eq_le)
  finally show ?thesis .
qed

lemma prefix_take_iff:
  "(\<exists>j. 0 < j \<and> j \<le> length d \<and> q = take j d) \<longleftrightarrow> q \<noteq> [] \<and> in_tree q d"
proof
  assume "\<exists>j. 0 < j \<and> j \<le> length d \<and> q = take j d"
  then obtain j where j: "0 < j" "j \<le> length d" "q = take j d" by blast
  then have "length q = j" by simp
  with j show "q \<noteq> [] \<and> in_tree q d" by (auto simp: in_tree_def)
next
  assume a: "q \<noteq> [] \<and> in_tree q d"
  then have t: "take (length q) d = q" by (simp add: in_tree_def)
  then have "length (take (length q) d) = length q" by simp
  then have "length q \<le> length d" by simp
  with a t show "\<exists>j. 0 < j \<and> j \<le> length d \<and> q = take j d"
    by (intro exI[of _ "length q"]) auto
qed

lemma mkdir_from_lookup:
  "mkdir_from P fs pre cs = Inr fs' \<Longrightarrow>
   fmlookup fs' q
     = (if \<exists>j. 0 < j \<and> j \<le> length cs \<and> q = pre @ take j cs then Some Dir else fmlookup fs q)"
proof (induction cs arbitrary: fs pre)
  case Nil
  then show ?case by simp
next
  case (Cons c cs)
  let ?q0 = "pre @ [c]"
  have split: "(\<exists>j. 0 < j \<and> j \<le> length (c # cs) \<and> q = pre @ take j (c # cs))
      \<longleftrightarrow> q = ?q0 \<or> (\<exists>j. 0 < j \<and> j \<le> length cs \<and> q = ?q0 @ take j cs)"
  proof
    assume "\<exists>j. 0 < j \<and> j \<le> length (c # cs) \<and> q = pre @ take j (c # cs)"
    then obtain j where j: "0 < j" "j \<le> length (c # cs)" "q = pre @ take j (c # cs)" by blast
    then obtain i where i: "j = Suc i" by (cases j) auto
    show "q = ?q0 \<or> (\<exists>j. 0 < j \<and> j \<le> length cs \<and> q = ?q0 @ take j cs)"
    proof (cases i)
      case 0
      with i j show ?thesis by simp
    next
      case (Suc k)
      with i j have "0 < i \<and> i \<le> length cs \<and> q = ?q0 @ take i cs" by simp
      then show ?thesis by blast
    qed
  next
    assume "q = ?q0 \<or> (\<exists>j. 0 < j \<and> j \<le> length cs \<and> q = ?q0 @ take j cs)"
    then show "\<exists>j. 0 < j \<and> j \<le> length (c # cs) \<and> q = pre @ take j (c # cs)"
    proof
      assume "q = ?q0"
      then show ?thesis by (intro exI[of _ 1]) simp
    next
      assume "\<exists>j. 0 < j \<and> j \<le> length cs \<and> q = ?q0 @ take j cs"
      then obtain j where "0 < j" "j \<le> length cs" "q = ?q0 @ take j cs" by blast
      then show ?thesis by (intro exI[of _ "Suc j"]) simp
    qed
  qed
  have longer: "q \<noteq> ?q0" if "\<exists>j. 0 < j \<and> j \<le> length cs \<and> q = ?q0 @ take j cs"
  proof -
    from that obtain j where "0 < j" "j \<le> length cs" "q = ?q0 @ take j cs" by blast
    then have "length q > length ?q0" by simp
    then show ?thesis by auto
  qed
  show ?case
  proof (cases "fmlookup fs ?q0")
    case None
    with Cons.prems have "mkdir_from P (fmupd ?q0 Dir fs) ?q0 cs = Inr fs'" by simp
    from Cons.IH[OF this] show ?thesis
      unfolding split using longer by auto
  next
    case (Some nd)
    show ?thesis
    proof (cases nd)
      case (File b)
      with Some Cons.prems show ?thesis by simp
    next
      case Dir
      with Some Cons.prems have "mkdir_from P fs ?q0 cs = Inr fs'" by simp
      from Cons.IH[OF this] show ?thesis
        unfolding split using longer Some Dir by auto
    qed
  qed
qed

lemma mkdir_from_succeeds:
  "(\<forall>j. 0 < j \<and> j \<le> length cs \<longrightarrow> \<not> is_file fs (pre @ take j cs)) \<Longrightarrow>
   \<exists>fs'. mkdir_from P fs pre cs = Inr fs'"
proof (induction cs arbitrary: fs pre)
  case Nil
  then show ?case by simp
next
  case (Cons c cs)
  let ?q0 = "pre @ [c]"
  from Cons.prems[rule_format, of 1] have nf: "\<not> is_file fs ?q0" by simp
  have rest: "\<not> is_file fs (?q0 @ take j cs)" if "0 < j \<and> j \<le> length cs" for j
    using Cons.prems[rule_format, of "Suc j"] that by simp
  show ?case
  proof (cases "fmlookup fs ?q0")
    case None
    have "\<forall>j. 0 < j \<and> j \<le> length cs \<longrightarrow> \<not> is_file (fmupd ?q0 Dir fs) (?q0 @ take j cs)"
      using rest by (auto simp: is_file_def)
    from Cons.IH[OF this] None show ?thesis by simp
  next
    case (Some nd)
    with nf have "nd = Dir" by (cases nd) (auto simp: is_file_def)
    moreover have "\<forall>j. 0 < j \<and> j \<le> length cs \<longrightarrow> \<not> is_file fs (?q0 @ take j cs)"
      using rest by blast
    ultimately show ?thesis using Cons.IH[of fs ?q0] Some by simp
  qed
qed

lemma mkdir_from_fails:
  "\<exists>j. 0 < j \<and> j \<le> length cs \<and> is_file fs (pre @ take j cs) \<Longrightarrow>
   \<exists>e. mkdir_from P fs pre cs = Inl e"
proof (induction cs arbitrary: fs pre)
  case Nil
  then show ?case by simp
next
  case (Cons c cs)
  let ?q0 = "pre @ [c]"
  from Cons.prems obtain j where j: "0 < j" "j \<le> length (c # cs)" "is_file fs (pre @ take j (c # cs))"
    by blast
  show ?case
  proof (cases "fmlookup fs ?q0")
    case None
    from j obtain i where i: "j = Suc i" by (cases j) auto
    have "i \<noteq> 0"
    proof
      assume "i = 0"
      with i j have "is_file fs ?q0" by simp
      with None show False by (simp add: is_file_def)
    qed
    with i j have "0 < i \<and> i \<le> length cs \<and> is_file (fmupd ?q0 Dir fs) (?q0 @ take i cs)"
      by (auto simp: is_file_def)
    then have "\<exists>j. 0 < j \<and> j \<le> length cs \<and> is_file (fmupd ?q0 Dir fs) (?q0 @ take j cs)" by blast
    from Cons.IH[OF this] None show ?thesis by simp
  next
    case (Some nd)
    show ?thesis
    proof (cases nd)
      case (File b)
      with Some show ?thesis by simp
    next
      case Dir
      from j obtain i where i: "j = Suc i" by (cases j) auto
      have "i \<noteq> 0"
      proof
        assume "i = 0"
        with i j have "is_file fs ?q0" by simp
        with Some Dir show False by (simp add: is_file_def)
      qed
      with i j have "\<exists>j. 0 < j \<and> j \<le> length cs \<and> is_file fs (?q0 @ take j cs)"
        by (intro exI[of _ i]) auto
      from Cons.IH[OF this] Some Dir show ?thesis by simp
    qed
  qed
qed

text \<open>The parent directories can be made exactly when no regular file is in their place.\<close>

lemma mkdir_parents_ok:
  "\<not> blocked fs d \<Longrightarrow> mkdir_parents P fs d = Inr (made_dirs P fs d)"
proof -
  assume "\<not> blocked fs d"
  then have "\<forall>j. 0 < j \<and> j \<le> length d \<longrightarrow> \<not> is_file fs ([] @ take j d)"
    by (auto simp: blocked_iff)
  from mkdir_from_succeeds[OF this] obtain fs' where "mkdir_from P fs [] d = Inr fs'" by blast
  then show ?thesis by (simp add: mkdir_parents_def made_dirs_def)
qed

lemma mkdir_parents_blocked:
  "blocked fs d \<Longrightarrow> \<exists>e. mkdir_parents P fs d = Inl e"
  using mkdir_from_fails[of d fs "[]" P] by (simp add: blocked_iff mkdir_parents_def)

lemma made_dirs_lookup:
  "\<not> blocked fs d \<Longrightarrow>
   fmlookup (made_dirs P fs d) q = (if q \<noteq> [] \<and> in_tree q d then Some Dir else fmlookup fs q)"
proof -
  assume nb: "\<not> blocked fs d"
  have "mkdir_from P fs [] d = Inr (made_dirs P fs d)"
    using mkdir_parents_ok[OF nb] by (simp add: mkdir_parents_def)
  from mkdir_from_lookup[OF this, of q] show ?thesis
    using prefix_take_iff[of d q] by simp
qed

lemma made_dirs_blocked: "blocked fs d \<Longrightarrow> made_dirs P fs d = fs"
  using mkdir_parents_blocked[of fs d P] by (auto simp: made_dirs_def)

lemma made_dirs_existing:
  assumes "\<forall>j. 0 < j \<and> j \<le> length d \<longrightarrow> fmlookup fs (take j d) = Some Dir"
  shows "made_dirs P fs d = fs" and "\<not> blocked fs d"
proof -
  show nb: "\<not> blocked fs d" using assms by (auto simp: blocked_iff is_file_def)
  show "made_dirs P fs d = fs"
  proof (rule fmap_ext)
    fix q
    show "fmlookup (made_dirs P fs d) q = fmlookup fs q"
      using made_dirs_lookup[OF nb, of P q] prefix_take_iff[of d q] assms by auto
  qed
qed

lemma not_in_tree_longer: "length d < length q \<Longrightarrow> \<not> in_tree q d"
  by (auto simp: in_tree_def)

lemma made_dirs_parent:
  assumes "\<not> blocked fs (butlast p)"
  shows "fmlookup (made_dirs P fs (butlast p)) p = fmlookup fs p"
    and "parent_ok (made_dirs P fs (butlast p)) p"
proof -
  show "fmlookup (made_dirs P fs (butlast p)) p = fmlookup fs p"
  proof (cases "p = []")
    case True
    then show ?thesis using made_dirs_lookup[OF assms, of P p] by simp
  next
    case False
    then have "length (butlast p) < length p" by simp
    then have "\<not> in_tree p (butlast p)" by (rule not_in_tree_longer)
    then show ?thesis using made_dirs_lookup[OF assms, of P p] by simp
  qed
  show "parent_ok (made_dirs P fs (butlast p)) p"
  proof (cases "length p \<le> 1")
    case True
    then show ?thesis by (simp add: parent_ok_def)
  next
    case False
    then have "butlast p \<noteq> []" by (cases p) auto
    then show ?thesis
      using made_dirs_lookup[OF assms, of P "butlast p"]
      by (simp add: parent_ok_def is_dir_def in_tree_def)
  qed
qed

subsection \<open>Evaluating the examples\<close>

lemma chunk_args_name: "args_get (chunk_args sz off) ''name'' [] = ''a.txt''"
  by (simp add: chunk_args_def args_get_def)

lemma chunk_args_relpath: "args_get (chunk_args sz off) ''relpath'' [] = []"
  by (simp add: chunk_args_def args_get_def)

lemma sub_args_name: "args_get (sub_args sz off) ''name'' [] = ''a.txt''"
  by (simp add: sub_args_def args_get_def)

lemma sub_args_relpath: "args_get (sub_args sz off) ''relpath'' [] = ''sub''"
  by (simp add: sub_args_def args_get_def)

lemma py_int_examples:
  "py_int P0 ''0'' = Inr 0" "py_int P0 ''2'' = Inr 2" "py_int P0 ''3'' = Inr 3"
  "py_int P0 ''4'' = Inr 4" "py_int P0 ''5'' = Inr 5" "py_int P0 ''7'' = Inr 7"
  "py_int P0 ''10'' = Inr 10" "py_int P0 ''-1'' = Inr (- 1)"
  "py_int P0 ''abc'' = Inl ValueError"
  by code_simp+

lemma chunk_args_size: "sz \<noteq> [] \<Longrightarrow> int_arg P (chunk_args sz off) ''size'' = py_int P sz"
  by (simp add: chunk_args_def args_get_def int_arg_def)

lemma chunk_args_offset: "off \<noteq> [] \<Longrightarrow> int_arg P (chunk_args sz off) ''offset'' = py_int P off"
  by (simp add: chunk_args_def args_get_def int_arg_def)

lemma sub_args_size: "sz \<noteq> [] \<Longrightarrow> int_arg P (sub_args sz off) ''size'' = py_int P sz"
  by (simp add: sub_args_def args_get_def int_arg_def)

lemma sub_args_offset: "off \<noteq> [] \<Longrightarrow> int_arg P (sub_args sz off) ''offset'' = py_int P off"
  by (simp add: sub_args_def args_get_def int_arg_def)

lemma a_txt_paths: "tmp_path P0 ''a.txt'' [] = a_part" "final_path P0 ''a.txt'' [] = a_final"
  "tmp_path P0 ''a.txt'' ''sub'' = sub_part"
  "final_path P0 ''a.txt'' ''sub'' = UPLOAD_ROOT @ [''sub'', ''a.txt'']"
  by code_simp+

lemma ex_tmp: "req_tmp P0 (chunk_args sz off) = a_part"
  by (simp add: chunk_args_name chunk_args_relpath a_txt_paths)

lemma sub_tmp: "req_tmp P0 (sub_args sz off) = sub_part"
  by (simp add: sub_args_name sub_args_relpath a_txt_paths)

lemma part_not_blocked:
  "\<not> blocked fs_start (butlast a_part)" "\<not> blocked fs_abc (butlast a_part)"
  "\<not> blocked fs_dir_part (butlast a_part)" "\<not> blocked fs_start (butlast sub_part)"
  "blocked fs_tmp_blocked (butlast sub_part)"
  by code_simp+

lemma part_sizes:
  "size_at P0 fs_start a_part = 0" "size_at P0 fs_abc a_part = 3"
  "size_at P0 fs_dir_part a_part = 4096" "size_at P0 fs_start sub_part = 0"
  "size_at P0 fs_tmp_blocked sub_part = 0"
  by code_simp+

lemma part_lookups:
  "fmlookup fs_start a_part = None" "fmlookup fs_abc a_part = Some (File ''abc'')"
  "fmlookup fs_dir_part a_part = Some Dir" "fmlookup fs_start sub_part = None"
  "fmlookup fs_tmp_blocked sub_part = None"
  by code_simp+

lemma part_dirs:
  "made_dirs P0 fs_start (butlast a_part) = fs_start"
  "made_dirs P0 fs_abc (butlast a_part) = fs_abc"
  "made_dirs P0 fs_start (butlast sub_part) = fmupd (TMP_DIR @ [''sub'']) Dir fs_start"
  by (simp_all add: made_dirs_def mkdir_parents_def a_part_def sub_part_def TMP_DIR_def
      UPLOAD_ROOT_def fs_start_def fs_abc_def fmupd_same)

lemma status_args_get:
  "args_get (status_args sz) ''name'' [] = ''a.txt''"
  "args_get (status_args sz) ''relpath'' [] = []"
  "sz \<noteq> [] \<Longrightarrow> int_arg P (status_args sz) ''size'' = py_int P sz"
  by (simp_all add: status_args_def args_get_def int_arg_def)

lemma status_tmp:
  "req_tmp P0 (status_args sz) = a_part" "req_final P0 (status_args sz) = a_final"
  by (simp_all add: status_args_get a_txt_paths)

lemma sub_final: "req_final P0 (sub_args sz off) = UPLOAD_ROOT @ [''sub'', ''a.txt'']"
  by (simp add: sub_args_name sub_args_relpath a_txt_paths)

lemma final_lookups:
  "fmlookup fs_done a_part = None" "fmlookup fs_done a_final = Some (File ''hello'')"
  "fmlookup fs_start a_final = None" "fmlookup fs_abc a_final = None"
  "fmlookup fs_he a_part = Some (File ''he'')" "fmlookup fs_he a_final = None"
  "fmlookup fs_collide a_part = Some (File ''new'')"
  "fmlookup fs_collide a_final = Some (File ''old'')"
  "fmlookup fs_collide a_one = Some (File ''x'')"
  "fmlookup fs_collide a_two = None"
  "fmlookup fs_blocked sub_part = Some (File ''he'')"
  by code_simp+


lemma final_not_blocked:
  "\<not> blocked fs_he (butlast a_final)" "\<not> blocked fs_collide (butlast a_final)"
  "\<not> blocked fs_abc (butlast a_final)" "\<not> blocked fs_start (butlast a_final)"
  "blocked fs_blocked (butlast (UPLOAD_ROOT @ [''sub'', ''a.txt'']))"
  by code_simp+

lemma final_dirs:
  "made_dirs P0 fs_he (butlast a_final) = fs_he"
  "made_dirs P0 fs_collide (butlast a_final) = fs_collide"
  by (simp_all add: made_dirs_def mkdir_parents_def a_final_def a_part_def a_one_def
      TMP_DIR_def UPLOAD_ROOT_def fs_start_def fs_he_def fs_collide_def)

lemma moves:
  "move_ok E0" "\<not> move_ok E_locked"
  by code_simp+

lemma abc_append: "fmupd a_part (File x) fs_abc = fmupd a_part (File x) fs_start"
  by (simp add: fs_abc_def fmupd_twice)

subsection \<open>Receiving a chunk\<close>

lemma copy_stream_appends:
  "fmlookup fs out = Some (File b) \<Longrightarrow>
   copy_stream fs out stream w = (fmupd out (File (b @ stream)) fs, w + int (length stream))"
proof (induction fs out stream w arbitrary: b rule: copy_stream.induct)
  case (1 fs out stream written)
  show ?case
  proof (cases "take READ_SIZE stream = []")
    case True
    then have "stream = []" by (auto simp: READ_SIZE_def)
    with "1.prems" show ?thesis
      by (simp add: copy_stream.simps[of fs out "[]"] fmupd_same)
  next
    case False
    let ?chunk = "take READ_SIZE stream"
    have l: "fmlookup (file_write fs out ?chunk) out = Some (File (b @ ?chunk))"
      using "1.prems" by (simp add: file_write_def)
    have w: "file_write fs out ?chunk = fmupd out (File (b @ ?chunk)) fs"
      using "1.prems" by (simp add: file_write_def)
    have len: "length ?chunk + length (drop READ_SIZE stream) = length stream"
      by (metis append_take_drop_id length_append)
    have "copy_stream fs out stream written
        = copy_stream (file_write fs out ?chunk) out (drop READ_SIZE stream)
            (written + int (length ?chunk))"
      using False by (subst copy_stream.simps) (simp add: Let_def)
    also have "\<dots> = (fmupd out (File ((b @ ?chunk) @ drop READ_SIZE stream)) (file_write fs out ?chunk),
                      written + int (length ?chunk) + int (length (drop READ_SIZE stream)))"
      by (rule "1.IH"[OF refl False l])
    also have "\<dots> = (fmupd out (File (b @ stream)) fs, written + int (length stream))"
      using len by (simp add: w fmupd_twice del: length_drop)
    finally show ?thesis .
  qed
qed

text \<open>Opening the staging file once its directories are made, and writing the body.\<close>

lemma write_after_mkdir:
  assumes "\<not> blocked fs (butlast p)" and "fmlookup fs p \<noteq> Some Dir"
  shows "\<exists>fs2. open_append P (made_dirs P fs (butlast p)) p = Inr fs2
           \<and> copy_stream fs2 p body 0
               = (fmupd p (File (partial_bytes fs p @ body)) (made_dirs P fs (butlast p)),
                  int (length body))"
proof -
  let ?fs1 = "made_dirs P fs (butlast p)"
  note l = made_dirs_parent[OF assms(1), of P]
  show ?thesis
  proof (cases "fmlookup fs p")
    case None
    then have o: "open_append P ?fs1 p = Inr (fmupd p (File []) ?fs1)"
      using l by (simp add: open_append_def)
    have "copy_stream (fmupd p (File []) ?fs1) p body 0
        = (fmupd p (File ([] @ body)) (fmupd p (File []) ?fs1), 0 + int (length body))"
      by (rule copy_stream_appends) simp
    with o None show ?thesis by (simp add: partial_bytes_def fmupd_twice)
  next
    case (Some nd)
    with assms(2) obtain b where b: "nd = File b" by (cases nd) auto
    with Some have o: "open_append P ?fs1 p = Inr ?fs1"
      using l by (simp add: open_append_def)
    have "copy_stream ?fs1 p body 0 = (fmupd p (File (b @ body)) ?fs1, 0 + int (length body))"
      by (rule copy_stream_appends) (simp add: l Some b)
    with o Some b show ?thesis by (simp add: partial_bytes_def)
  qed
qed

lemma open_dir_after_mkdir:
  assumes "\<not> blocked fs (butlast p)" and "fmlookup fs p = Some Dir"
  shows "open_append P (made_dirs P fs (butlast p)) p = Inl (dir_error P)"
  using made_dirs_parent(1)[OF assms(1), of P] assms(2) by (simp add: open_append_def)

text \<open>The handler on a request that passes the check of its parameters.\<close>

lemma upload_chunk_valid:
  assumes "args_get a ''name'' [] \<noteq> []"
    and "int_arg P a ''size'' = Inr sz" and "0 \<le> sz"
    and "int_arg P a ''offset'' = Inr offset" and "0 \<le> offset"
  shows "upload_chunk P fs a body =
     (let tmp = req_tmp P a;
          current = size_at P fs tmp
      in if offset \<noteq> current then (Json 409 [(''received'', JInt current)], fs)
         else
          (case mkdir_parents P fs (butlast tmp) of
             Inl e \<Rightarrow> (Unhandled (OSErr e), fs)
           | Inr fs1 \<Rightarrow>
               if fmlookup fs tmp = Some Dir then (Unhandled (OSErr (dir_error P)), fs1)
               else if current + int (length body) > sz \<and> sz > 0
               then (Abort 400 ''received more bytes than declared size'',
                     fmupd tmp (File (partial_bytes fs tmp @ body)) fs1)
               else (Json 200 [(''received'', JInt (current + int (length body)))],
                     fmupd tmp (File (partial_bytes fs tmp @ body)) fs1)))"
proof -
  let ?tmp = "req_tmp P a"
  have head: "upload_chunk P fs a body =
     (if offset \<noteq> size_at P fs ?tmp then (Json 409 [(''received'', JInt (size_at P fs ?tmp))], fs)
      else
        (case mkdir_parents P fs (butlast ?tmp) of
           Inl e \<Rightarrow> (Unhandled (OSErr e), fs)
         | Inr fs1 \<Rightarrow>
             (case open_append P fs1 ?tmp of
                Inl e \<Rightarrow> (Unhandled (OSErr e), fs1)
              | Inr fs2 \<Rightarrow>
                  let (fs3, written) = copy_stream fs2 ?tmp body 0;
                      received = size_at P fs ?tmp + written
                  in if received > sz \<and> sz > 0
                     then (Abort 400 ''received more bytes than declared size'', fs3)
                     else (Json 200 [(''received'', JInt received)], fs3))))"
    using assms by (simp add: upload_chunk_def Let_def current_size)
  show ?thesis
  proof (cases "blocked fs (butlast ?tmp)")
    case True
    then obtain e where "mkdir_parents P fs (butlast ?tmp) = Inl e"
      using mkdir_parents_blocked by blast
    then show ?thesis by (simp add: head Let_def)
  next
    case False
    note m = mkdir_parents_ok[OF False, of P]
    show ?thesis
    proof (cases "fmlookup fs ?tmp = Some Dir")
      case True
      with open_dir_after_mkdir[OF False True, of P] show ?thesis
        by (simp add: head m Let_def)
    next
      case nd: False
      from write_after_mkdir[OF False nd, of P body] obtain fs2 where
        "open_append P (made_dirs P fs (butlast ?tmp)) ?tmp = Inr fs2"
        "copy_stream fs2 ?tmp body 0
           = (fmupd ?tmp (File (partial_bytes fs ?tmp @ body)) (made_dirs P fs (butlast ?tmp)),
              int (length body))"
        by blast
      with nd show ?thesis by (simp add: head m Let_def)
    qed
  qed
qed



text \<open>
  C2, as stated, promises for every request at a matching offset that the directories are
  made, the body is appended and the count is returned. With a declared size of 3 and a body
  of five bytes at offset 0 the bytes are appended, but the answer is the size-exceeded
  error, not a count. And when a regular file stands where the directory of the staging path
  has to be made, \<^verbatim>\<open>mkdir\<close> raises \<^verbatim>\<open>FileExistsError\<close>, which the handler does not
  catch, and nothing is written.
\<close>

theorem chunk_received_counterexample:
  "int_arg P0 (chunk_args ''3'' ''0'') ''offset''
     = Inr (size_at P0 fs_start (req_tmp P0 (chunk_args ''3'' ''0'')))
   \<and> upload_chunk P0 fs_start (chunk_args ''3'' ''0'') ''hello''
       = (Abort 400 ''received more bytes than declared size'',
          fmupd a_part (File ''hello'') fs_start)
   \<and> fst (upload_chunk P0 fs_start (chunk_args ''3'' ''0'') ''hello'')
       \<noteq> Json 200 [(''received'', JInt 5)]
   \<and> int_arg P0 (sub_args ''0'' ''0'') ''offset''
     = Inr (size_at P0 fs_tmp_blocked (req_tmp P0 (sub_args ''0'' ''0'')))
   \<and> upload_chunk P0 fs_tmp_blocked (sub_args ''0'' ''0'') ''hi''
       = (Unhandled (OSErr FileExistsError), fs_tmp_blocked)"
proof -
  have v: "upload_chunk P0 fs_start (chunk_args ''3'' ''0'') ''hello''
       = (Abort 400 ''received more bytes than declared size'',
          fmupd a_part (File ''hello'') fs_start)"
    by (simp add: upload_chunk_valid[of "chunk_args ''3'' ''0''" P0 3 0] chunk_args_name
        chunk_args_relpath chunk_args_size chunk_args_offset py_int_examples a_txt_paths
        part_sizes part_lookups partial_bytes_def mkdir_parents_ok[OF part_not_blocked(1)]
        part_dirs Let_def)
  have m: "mkdir_parents P0 fs_tmp_blocked (butlast sub_part) = Inl FileExistsError"
    by code_simp
  have w: "upload_chunk P0 fs_tmp_blocked (sub_args ''0'' ''0'') ''hi''
       = (Unhandled (OSErr FileExistsError), fs_tmp_blocked)"
    by (simp add: upload_chunk_valid[of "sub_args ''0'' ''0''" P0 0 0] sub_args_name
        sub_args_relpath sub_args_size sub_args_offset py_int_examples a_txt_paths
        part_sizes m Let_def)
  from v w show ?thesis
    by (simp add: chunk_args_offset sub_args_offset py_int_examples ex_tmp sub_tmp part_sizes)
qed

text \<open>
  C2, amended. Take a chunk request that passes the parameter check and whose offset equals
  the current size at the staging path, where the staging path is not a directory and no
  regular file stands in the way of its directory. The directories down to the one of the
  staging path are made: afterwards each of them is a directory, and every other path is as
  it was. The whole body is appended to the partial file (the file is created when there is
  none; the body is read in pieces of \<^verbatim>\<open>READ_SIZE\<close> bytes), and the new length of the
  partial file is the previous length plus the number of bytes written. The answer is this
  count as \<^verbatim>\<open>received\<close>, unless the count exceeds a strictly positive declared size:
  then the answer is the size-exceeded error 400.
\<close>

theorem chunk_appends_body:
  assumes "args_get a ''name'' [] \<noteq> []"
    and "int_arg P a ''size'' = Inr sz" and "0 \<le> sz"
    and "int_arg P a ''offset'' = Inr offset" and "0 \<le> offset"
    and "offset = size_at P fs (req_tmp P a)"
    and "fmlookup fs (req_tmp P a) \<noteq> Some Dir"
    and "\<not> blocked fs (butlast (req_tmp P a))"
  shows "upload_chunk P fs a body
           = (if sz > 0 \<and> offset + int (length body) > sz
              then Abort 400 ''received more bytes than declared size''
              else Json 200 [(''received'', JInt (offset + int (length body)))],
              fmupd (req_tmp P a) (File (partial_bytes fs (req_tmp P a) @ body))
                (made_dirs P fs (butlast (req_tmp P a))))
         \<and> size_at P (snd (upload_chunk P fs a body)) (req_tmp P a) = offset + int (length body)
         \<and> (\<forall>q. fmlookup (made_dirs P fs (butlast (req_tmp P a))) q
                = (if q \<noteq> [] \<and> in_tree q (butlast (req_tmp P a)) then Some Dir
                   else fmlookup fs q))"
proof -
  let ?tmp = "req_tmp P a"
  have r: "upload_chunk P fs a body
           = (if sz > 0 \<and> offset + int (length body) > sz
              then Abort 400 ''received more bytes than declared size''
              else Json 200 [(''received'', JInt (offset + int (length body)))],
              fmupd ?tmp (File (partial_bytes fs ?tmp @ body)) (made_dirs P fs (butlast ?tmp)))"
    using assms(6,7)
    by (simp add: upload_chunk_valid[OF assms(1-5)] Let_def mkdir_parents_ok[OF assms(8)])
  have "size_at P fs ?tmp = int (length (partial_bytes fs ?tmp))"
    using assms(7) by (simp add: size_at_def partial_bytes_def split: option.splits node.splits)
  with assms(6) have s: "size_at P (snd (upload_chunk P fs a body)) ?tmp = offset + int (length body)"
    by (simp add: r size_at_def)
  from r s made_dirs_lookup[OF assms(8), of P] show ?thesis by simp
qed

theorem chunk_appends_body_witness:
  "int_arg P0 (sub_args ''10'' ''0'') ''offset''
     = Inr (size_at P0 fs_start (req_tmp P0 (sub_args ''10'' ''0'')))
   \<and> upload_chunk P0 fs_start (sub_args ''10'' ''0'') ''hello''
       = (Json 200 [(''received'', JInt 5)],
          fmupd sub_part (File ''hello'') (fmupd (TMP_DIR @ [''sub'']) Dir fs_start))
   \<and> size_at P0 (snd (upload_chunk P0 fs_start (sub_args ''10'' ''0'') ''hello'')) sub_part = 5
   \<and> int_arg P0 (chunk_args ''10'' ''3'') ''offset''
     = Inr (size_at P0 fs_abc (req_tmp P0 (chunk_args ''10'' ''3'')))
   \<and> upload_chunk P0 fs_abc (chunk_args ''10'' ''3'') ''hello''
       = (Json 200 [(''received'', JInt 8)], fmupd a_part (File ''abchello'') fs_start)"
proof -
  let ?a = "sub_args ''10'' ''0''"
  have h1: "args_get ?a ''name'' [] \<noteq> []" by (simp add: sub_args_name)
  have h2: "int_arg P0 ?a ''size'' = Inr 10" by (simp add: sub_args_size py_int_examples)
  have h4: "int_arg P0 ?a ''offset'' = Inr 0" by (simp add: sub_args_offset py_int_examples)
  have h6: "0 = size_at P0 fs_start (req_tmp P0 ?a)" by (simp only: sub_tmp part_sizes)
  have h7: "fmlookup fs_start (req_tmp P0 ?a) \<noteq> Some Dir" by (simp add: sub_tmp part_lookups)
  have h8: "\<not> blocked fs_start (butlast (req_tmp P0 ?a))"
    by (simp only: sub_tmp part_not_blocked simp_thms)
  have t: "upload_chunk P0 fs_start ?a ''hello''
       = (Json 200 [(''received'', JInt 5)],
          fmupd sub_part (File ''hello'') (fmupd (TMP_DIR @ [''sub'']) Dir fs_start))
     \<and> size_at P0 (snd (upload_chunk P0 fs_start ?a ''hello'')) sub_part = 5"
    using chunk_appends_body[OF h1 h2 _ h4 _ h6 h7 h8, of "''hello''"]
    by (simp add: sub_tmp part_lookups partial_bytes_def part_dirs size_at_def)
  note r = conjunct1[OF t] and s = conjunct2[OF t]
  let ?b = "chunk_args ''10'' ''3''"
  have g1: "args_get ?b ''name'' [] \<noteq> []" by (simp add: chunk_args_name)
  have g2: "int_arg P0 ?b ''size'' = Inr 10" by (simp add: chunk_args_size py_int_examples)
  have g4: "int_arg P0 ?b ''offset'' = Inr 3" by (simp add: chunk_args_offset py_int_examples)
  have g6: "3 = size_at P0 fs_abc (req_tmp P0 ?b)" by (simp only: ex_tmp part_sizes)
  have g7: "fmlookup fs_abc (req_tmp P0 ?b) \<noteq> Some Dir" by (simp add: ex_tmp part_lookups)
  have g8: "\<not> blocked fs_abc (butlast (req_tmp P0 ?b))"
    by (simp only: ex_tmp part_not_blocked simp_thms)
  have q: "upload_chunk P0 fs_abc ?b ''hello''
       = (Json 200 [(''received'', JInt 8)], fmupd a_part (File ''abchello'') fs_start)"
    using chunk_appends_body[OF g1 g2 _ g4 _ g6 g7 g8, of "''hello''"]
    by (simp add: ex_tmp part_lookups partial_bytes_def part_dirs abc_append)
  from r s q h4 g4 show ?thesis
    by (simp add: sub_tmp ex_tmp part_sizes)
qed

text \<open>
  C6. Take a chunk request that passes the parameter check and is accepted at a matching
  offset: the offset equals the current size at the staging path, and the append takes place
  (the staging path is not a directory and no regular file stands in the way of its
  directory). When the previous length plus the bytes written exceeds a strictly positive
  declared size, the answer is the client error 400, and the body has been appended all the
  same: the partial file holds the old bytes followed by the new ones. The declared size is a
  parameter of the request only; the state of the server is the file system, which holds no
  size.
\<close>

theorem chunk_size_exceeded:
  assumes "args_get a ''name'' [] \<noteq> []"
    and "int_arg P a ''size'' = Inr sz" and "0 \<le> sz"
    and "int_arg P a ''offset'' = Inr offset" and "0 \<le> offset"
    and "offset = size_at P fs (req_tmp P a)"
    and "fmlookup fs (req_tmp P a) \<noteq> Some Dir"
    and "\<not> blocked fs (butlast (req_tmp P a))"
    and "sz > 0" and "offset + int (length body) > sz"
  shows "upload_chunk P fs a body
         = (Abort 400 ''received more bytes than declared size'',
            fmupd (req_tmp P a) (File (partial_bytes fs (req_tmp P a) @ body))
              (made_dirs P fs (butlast (req_tmp P a))))
       \<and> fmlookup (snd (upload_chunk P fs a body)) (req_tmp P a)
           = Some (File (partial_bytes fs (req_tmp P a) @ body))"
  using assms(6,7,9,10)
  by (simp add: upload_chunk_valid[OF assms(1-5)] Let_def mkdir_parents_ok[OF assms(8)])

theorem chunk_size_exceeded_witness:
  "int_arg P0 (chunk_args ''5'' ''3'') ''offset''
     = Inr (size_at P0 fs_abc (req_tmp P0 (chunk_args ''5'' ''3'')))
   \<and> upload_chunk P0 fs_abc (chunk_args ''5'' ''3'') ''defg''
       = (Abort 400 ''received more bytes than declared size'',
          fmupd a_part (File ''abcdefg'') fs_start)
   \<and> fmlookup (snd (upload_chunk P0 fs_abc (chunk_args ''5'' ''3'') ''defg'')) a_part
       = Some (File ''abcdefg'')"
proof -
  let ?a = "chunk_args ''5'' ''3''"
  have h1: "args_get ?a ''name'' [] \<noteq> []" by (simp add: chunk_args_name)
  have h2: "int_arg P0 ?a ''size'' = Inr 5" by (simp add: chunk_args_size py_int_examples)
  have h4: "int_arg P0 ?a ''offset'' = Inr 3" by (simp add: chunk_args_offset py_int_examples)
  have h6: "3 = size_at P0 fs_abc (req_tmp P0 ?a)" by (simp only: ex_tmp part_sizes)
  have h7: "fmlookup fs_abc (req_tmp P0 ?a) \<noteq> Some Dir" by (simp add: ex_tmp part_lookups)
  have h8: "\<not> blocked fs_abc (butlast (req_tmp P0 ?a))"
    by (simp only: ex_tmp part_not_blocked simp_thms)
  have "upload_chunk P0 fs_abc ?a ''defg''
       = (Abort 400 ''received more bytes than declared size'',
          fmupd a_part (File ''abcdefg'') fs_start)"
    using chunk_size_exceeded[OF h1 h2 _ h4 _ h6 h7 h8, of "''defg''"]
    by (simp add: ex_tmp part_lookups partial_bytes_def part_dirs abc_append)
  then show ?thesis
    using h4 by (simp add: ex_tmp part_sizes)
qed

subsection \<open>Asking for the status\<close>

lemma upload_status_no_write: "snd (upload_status P fs a) = fs"
  by (simp add: upload_status_def Let_def split: sum.splits)

lemma upload_status_valid:
  assumes "args_get a ''name'' [] \<noteq> []" and "int_arg P a ''size'' = Inr sz" and "0 \<le> sz"
  shows "upload_status P fs a =
     (if exists fs (req_tmp P a)
      then Json 200 [(''received'', JInt (size_at P fs (req_tmp P a)))]
      else if exists fs (req_final P a)
      then (if sz = 0 \<or> size_at P fs (req_final P a) = sz
            then Json 200 [(''received'', JInt (size_at P fs (req_final P a))),
                           (''complete'', JBool True)]
            else Json 200 [(''received'', JInt (size_at P fs (req_final P a)))])
      else Json 200 [(''received'', JInt 0)],
      fs)"
  using assms
  by (auto simp: upload_status_def Let_def stat_size_exists)



subsection \<open>The parameter check\<close>

lemma py_int_zero: "py_int P ''0'' = Inr 0"
  by (auto simp: py_int_def strip_by_def int_space_def is_digit_def digits_val_def digit_val_def)

text \<open>
  C9, as stated, has every request with a missing size rejected. A status request that names
  a file and gives no size is answered with \<^verbatim>\<open>received\<close> = 0.
\<close>

theorem missing_size_counterexample:
  "name_only_args ''size'' = None
   \<and> upload_status P0 fs_start name_only_args = (Json 200 [(''received'', JInt 0)], fs_start)"
proof -
  have h1: "args_get name_only_args ''name'' [] \<noteq> []"
    by (simp add: name_only_args_def args_get_def)
  have h2: "int_arg P0 name_only_args ''size'' = Inr 0"
    by (simp add: name_only_args_def args_get_def int_arg_def py_int_examples)
  have p: "req_tmp P0 name_only_args = a_part" "req_final P0 name_only_args = a_final"
    by (simp_all add: name_only_args_def args_get_def a_txt_paths)
  have "upload_status P0 fs_start name_only_args = (Json 200 [(''received'', JInt 0)], fs_start)"
    by (simp add: upload_status_valid[OF h1 h2] p exists_def part_lookups final_lookups)
  moreover have "name_only_args ''size'' = None"
    by (simp add: name_only_args_def)
  ultimately show ?thesis by simp
qed

text \<open>
  C9, amended. For a status request whose size parses, and for a chunk request whose size and
  offset parse: the answer is the validation error 400 with the file system untouched exactly
  when the name is missing or empty, or the size is negative, or (for a chunk) the offset is
  negative. A missing or empty size or offset reads as 0 and is not rejected; size zero is
  permitted.
\<close>

theorem validation_rejects:
  "(int_arg P a ''size'' = Inr sz \<longrightarrow>
      (upload_status P fs a = (Abort 400 ''name/size required'', fs))
        = (args_get a ''name'' [] = [] \<or> sz < 0))
   \<and> (int_arg P a ''size'' = Inr sz \<and> int_arg P a ''offset'' = Inr offset \<longrightarrow>
      (upload_chunk P fs a body = (Abort 400 ''name/size/offset required'', fs))
        = (args_get a ''name'' [] = [] \<or> sz < 0 \<or> offset < 0))
   \<and> (a key = None \<or> a key = Some [] \<longrightarrow> int_arg P a key = Inr 0)"
proof (intro conjI impI)
  assume s: "int_arg P a ''size'' = Inr sz"
  show "(upload_status P fs a = (Abort 400 ''name/size required'', fs))
        = (args_get a ''name'' [] = [] \<or> sz < 0)"
  proof (cases "args_get a ''name'' [] = [] \<or> sz < 0")
    case True
    with s show ?thesis by (simp add: upload_status_def Let_def)
  next
    case False
    then have "upload_status P fs a \<noteq> (Abort 400 ''name/size required'', fs)"
      using upload_status_valid[of a P sz fs] s
      by (auto split: if_splits)
    with False show ?thesis by simp
  qed
next
  assume "int_arg P a ''size'' = Inr sz \<and> int_arg P a ''offset'' = Inr offset"
  then have s: "int_arg P a ''size'' = Inr sz" and t: "int_arg P a ''offset'' = Inr offset"
    by simp_all
  show "(upload_chunk P fs a body = (Abort 400 ''name/size/offset required'', fs))
        = (args_get a ''name'' [] = [] \<or> sz < 0 \<or> offset < 0)"
  proof (cases "args_get a ''name'' [] = [] \<or> sz < 0 \<or> offset < 0")
    case True
    with s t show ?thesis by (simp add: upload_chunk_def Let_def)
  next
    case False
    then have "fst (upload_chunk P fs a body) \<noteq> Abort 400 ''name/size/offset required''"
      using upload_chunk_valid[of a P sz offset fs body] s t
      by (auto simp: Let_def split: if_splits sum.splits)
    then have "upload_chunk P fs a body \<noteq> (Abort 400 ''name/size/offset required'', fs)"
      by auto
    with False show ?thesis by simp
  qed
next
  assume "a key = None \<or> a key = Some []"
  then show "int_arg P a key = Inr 0"
    by (auto simp: int_arg_def args_get_def py_int_zero)
qed

theorem validation_rejects_witness:
  "int_arg P0 size_only_args ''size'' = Inr 5
   \<and> args_get size_only_args ''name'' [] = []
   \<and> upload_status P0 fs_start size_only_args = (Abort 400 ''name/size required'', fs_start)
   \<and> int_arg P0 size_only_args ''offset'' = Inr 0
   \<and> upload_chunk P0 fs_start size_only_args ''hello''
       = (Abort 400 ''name/size/offset required'', fs_start)"
proof -
  have h1: "int_arg P0 size_only_args ''size'' = Inr 5"
    by (simp add: size_only_args_def int_arg_def args_get_def py_int_examples)
  have h2: "args_get size_only_args ''name'' [] = []"
    by (simp add: size_only_args_def args_get_def)
  have h3: "size_only_args ''offset'' = None"
    by (simp add: size_only_args_def)
  note t = validation_rejects[of P0 size_only_args 5 fs_start 0 "''hello''" "''offset''"]
  from t h3 have h4: "int_arg P0 size_only_args ''offset'' = Inr 0" by simp
  from t h1 h2 h4 show ?thesis by simp
qed

subsection \<open>Finishing an upload\<close>

lemma unique_loop_least:
  "\<exists>i\<ge>k. unique_loop fs p stem sfx k = candidate p stem sfx i
      \<and> \<not> exists fs (candidate p stem sfx i)
      \<and> (\<forall>j. k \<le> j \<and> j < i \<longrightarrow> exists fs (candidate p stem sfx j))"
proof (induction fs p stem sfx k rule: unique_loop.induct)
  case (1 fs p stem sfx k)
  show ?case
  proof (cases "exists fs (candidate p stem sfx k)")
    case False
    then have "unique_loop fs p stem sfx k = candidate p stem sfx k"
      by (subst unique_loop.simps) (simp add: Let_def)
    with False show ?thesis by (intro exI[of _ k]) auto
  next
    case True
    then have u: "unique_loop fs p stem sfx k = unique_loop fs p stem sfx (k + 1)"
      by (subst unique_loop.simps) (simp add: Let_def)
    from "1.IH"[OF refl] True
    obtain i where i: "k + 1 \<le> i"
      "unique_loop fs p stem sfx (k + 1) = candidate p stem sfx i"
      "\<not> exists fs (candidate p stem sfx i)"
      "\<forall>j. k + 1 \<le> j \<and> j < i \<longrightarrow> exists fs (candidate p stem sfx j)"
      by auto
    have "\<forall>j. k \<le> j \<and> j < i \<longrightarrow> exists fs (candidate p stem sfx j)"
    proof (intro allI impI)
      fix j assume j: "k \<le> j \<and> j < i"
      show "exists fs (candidate p stem sfx j)"
      proof (cases "j = k")
        case True
        with \<open>exists fs (candidate p stem sfx k)\<close> show ?thesis by simp
      next
        case False
        with j have "k + 1 \<le> j \<and> j < i" by simp
        with i(4) show ?thesis by blast
      qed
    qed
    with i u show ?thesis by (intro exI[of _ i]) simp
  qed
qed

lemma unique_path_free: "\<not> exists fs (unique_path fs p)"
  using unique_loop_least[of 1 fs p "name_stem (path_name p)" "name_suffix (path_name p)"]
  by (auto simp: unique_path_def)

lemma unique_path_absent: "\<not> exists fs p \<Longrightarrow> unique_path fs p = p"
  by (simp add: unique_path_def)

lemma stem_suffix: "name_stem n @ name_suffix n = n"
  by (simp add: name_stem_def name_suffix_def split: option.splits)

lemma tmp_final_length: "length (tmp_path P n r) = Suc (length (final_path P n' r))"
  by (simp add: tmp_path_def final_path_def TMP_DIR_def)

lemma final_path_last: "final_path P n r \<noteq> []" "path_name (final_path P n r) = safe_name P n"
  by (simp_all add: final_path_def path_name_def)

lemma candidate_length: "p \<noteq> [] \<Longrightarrow> length (candidate p stem sfx i) = length p"
  by (simp add: candidate_def with_name_def)

lemma unique_path_length: "p \<noteq> [] \<Longrightarrow> length (unique_path fs p) = length p"
  using unique_loop_least[of 1 fs p "name_stem (path_name p)" "name_suffix (path_name p)"]
  by (auto simp: unique_path_def candidate_length)

lemma unique_final_ne_tmp: "unique_path fs (final_path P n r) \<noteq> tmp_path P n' r"
proof
  assume "unique_path fs (final_path P n r) = tmp_path P n' r"
  then have "length (unique_path fs (final_path P n r)) = length (tmp_path P n' r)" by simp
  then show False
    by (simp add: unique_path_length final_path_last tmp_final_length[of P n' r n])
qed

lemma final_ne_tmp: "final_path P n r \<noteq> tmp_path P n' r"
proof
  assume "final_path P n r = tmp_path P n' r"
  then have "length (final_path P n r) = length (tmp_path P n' r)" by simp
  then show False by (simp add: tmp_final_length[of P n' r n])
qed

lemma candidate_ne_self:
  "p \<noteq> [] \<Longrightarrow> candidate p (name_stem (path_name p)) (name_suffix (path_name p)) i \<noteq> p"
proof
  assume p: "p \<noteq> []"
    and c: "candidate p (name_stem (path_name p)) (name_suffix (path_name p)) i = p"
  from c have "last (candidate p (name_stem (path_name p)) (name_suffix (path_name p)) i) = last p"
    by simp
  with p have "name_stem (last p) @ '' ('' @ str_nat i @ '')'' @ name_suffix (last p) = last p"
    by (simp add: candidate_def with_name_def path_name_def)
  then have "length (name_stem (last p) @ '' ('' @ str_nat i @ '')'' @ name_suffix (last p))
      = length (name_stem (last p) @ name_suffix (last p))"
    by (simp only: stem_suffix)
  then show False by simp
qed

lemma butlast_candidate: "butlast (candidate p stem sfx i) = butlast p"
  by (simp add: candidate_def with_name_def)

lemma butlast_unique_path: "butlast (unique_path fs p) = butlast p"
  using unique_loop_least[of 1 fs p "name_stem (path_name p)" "name_suffix (path_name p)"]
  by (auto simp: unique_path_def butlast_candidate)

text \<open>The move of a regular file to a free name in a directory that is there.\<close>

lemma os_replace_file:
  assumes "fmlookup fs src = Some (File b)" and "fmlookup fs dst = None" and "parent_ok fs dst"
  shows "os_replace P fs src dst = Inr (fmupd dst (File b) (fmdrop src fs))"
  using assms by (simp add: os_replace_def)

lemma replace_loop_result:
  assumes "os_replace P fs src dst = Inr R"
  shows "replace_loop E P fs src dst js last_err
         = (if list_ex (\<lambda>i. replace_fault E i = None) js then Inr R
            else Inl (if js = [] then last_err else replace_fault E (last js)))"
proof (induction js arbitrary: last_err)
  case Nil
  then show ?case by simp
next
  case (Cons i js)
  show ?case
  proof (cases "replace_fault E i")
    case None
    with assms show ?thesis by (simp add: replace_attempt_def)
  next
    case (Some e)
    then show ?thesis by (simp add: replace_attempt_def Cons.IH)
  qed
qed

lemma shutil_move_file:
  assumes "fmlookup fs src = Some (File b)" and "fmlookup fs dst = None" and "parent_ok fs dst"
  shows "shutil_move P fs src dst = Inr (fmupd dst (File b) (fmdrop src fs))"
  using assms
  by (simp add: shutil_move_def is_dir_def move_to_def os_rename_def exists_def os_replace_def)

lemma atomic_move_ok:
  assumes "fmlookup fs src = Some (File b)" and "fmlookup fs dst = None" and "parent_ok fs dst"
    and "move_ok E"
  shows "atomic_move_with_retry E P fs src dst 10 = Inr (fmupd dst (File b) (fmdrop src fs))"
proof -
  note r = replace_loop_result[OF os_replace_file[OF assms(1-3), of P], of E "[0..<10]" None]
  show ?thesis
  proof (cases "list_ex (\<lambda>i. replace_fault E i = None) [0..<10]")
    case True
    with r show ?thesis by (simp add: atomic_move_with_retry_def)
  next
    case False
    with assms(4) have "move_fault E = None" by (simp add: move_ok_def)
    with False r shutil_move_file[OF assms(1-3), of P] show ?thesis
      by (simp add: atomic_move_with_retry_def move_attempt_def)
  qed
qed


lemma upload_finish_present:
  assumes "args_get a ''name'' [] \<noteq> []" and "int_arg P a ''size'' = Inr sz"
    and "exists fs (req_tmp P a)"
  shows "upload_finish P E fs a =
     (let tmp = req_tmp P a; final_pref = unique_path fs (req_final P a) in
      case mkdir_parents P fs (butlast final_pref) of
        Inl e \<Rightarrow> (Unhandled (OSErr e), fs)
      | Inr fs1 \<Rightarrow>
         (case atomic_move_with_retry E P fs1 tmp final_pref 10 of
            Inr fs2 \<Rightarrow> (Json 200 (ok_body P final_pref None), fs2)
          | Inl (FileNotFoundError, fs2) \<Rightarrow>
              if exists fs2 final_pref
              then (Json 200 (ok_body P final_pref (Some ''finalized concurrently'')), fs2)
              else (Abort 404 ''partial vanished during finalize'', fs2)
          | Inl (e, fs2) \<Rightarrow>
              if exists fs2 final_pref
                 \<and> (sz = 0 \<or> stat_size P fs2 final_pref = Inr sz)
              then (Json 200 (ok_body P final_pref (Some ''final existed after error'')),
                    (case unlink_attempt E P fs2 tmp of Inl _ \<Rightarrow> fs2 | Inr fs3 \<Rightarrow> fs3))
              else (AbortFinalize e, fs2)))"
proof (cases "exists fs (req_final P a)")
  case True
  with assms show ?thesis by (simp add: upload_finish_def Let_def)
next
  case False
  with assms show ?thesis by (simp add: upload_finish_def Let_def unique_path_absent)
qed

lemma upload_finish_moves:
  assumes "args_get a ''name'' [] \<noteq> []" and "int_arg P a ''size'' = Inr sz"
    and "fmlookup fs (req_tmp P a) = Some (File b)"
    and "\<not> blocked fs (butlast (req_final P a))"
    and "move_ok E"
  shows "upload_finish P E fs a =
     (Json 200 (ok_body P (unique_path fs (req_final P a)) None),
      fmupd (unique_path fs (req_final P a)) (File b)
        (fmdrop (req_tmp P a) (made_dirs P fs (butlast (req_final P a)))))"
proof -
  let ?tmp = "req_tmp P a" and ?dst = "unique_path fs (req_final P a)"
  let ?fs1 = "made_dirs P fs (butlast (req_final P a))"
  have e: "exists fs ?tmp" using assms(3) by (simp add: exists_def)
  have bl: "butlast ?dst = butlast (req_final P a)" by (rule butlast_unique_path)
  have nb: "\<not> blocked fs (butlast ?dst)" unfolding bl by (rule assms(4))
  have m: "mkdir_parents P fs (butlast ?dst) = Inr ?fs1"
    using mkdir_parents_ok[OF nb, of P] unfolding bl .
  have ld: "fmlookup ?fs1 ?dst = None"
    using made_dirs_parent(1)[OF nb, of P] unique_path_free[of fs "req_final P a"]
    by (simp add: bl exists_def)
  have pd: "parent_ok ?fs1 ?dst"
    using made_dirs_parent(2)[OF nb, of P] by (simp add: bl)
  have "length (butlast (req_final P a)) < length ?tmp"
    by (simp add: tmp_final_length[of P _ _ "args_get a ''name'' []"])
  then have "\<not> in_tree ?tmp (butlast (req_final P a))" by (rule not_in_tree_longer)
  then have lt: "fmlookup ?fs1 ?tmp = Some (File b)"
    using made_dirs_lookup[OF assms(4), of P ?tmp] assms(3) by simp
  show ?thesis
    by (simp add: upload_finish_present[OF assms(1,2) e] Let_def m
        atomic_move_ok[OF lt ld pd assms(5)])
qed

text \<open>
  When every \<^verbatim>\<open>os.replace\<close> raises and \<^verbatim>\<open>shutil.move\<close> raises as well, the move
  fails with the error of the last \<^verbatim>\<open>os.replace\<close>; the file system is as it was, or
  holds the copy that \<^verbatim>\<open>shutil.move\<close> made before it raised.
\<close>

lemma replace_loop_all_fail:
  assumes "\<forall>i. replace_fault E i = Some e"
  shows "replace_loop E P fs src dst js last_err = Inl (if js = [] then last_err else Some e)"
  using assms
  by (induction js arbitrary: last_err) (simp_all add: replace_attempt_def)

lemma atomic_move_locked:
  assumes "\<forall>i. replace_fault E i = Some e" and "move_fault E = Some (MoveRaises e')"
    and "0 < n"
  shows "atomic_move_with_retry E P fs src dst n = Inl (e, fs)"
  using assms(2,3)
  by (simp add: atomic_move_with_retry_def replace_loop_all_fail[OF assms(1)] move_attempt_def)

lemma atomic_move_copied:
  assumes "\<forall>i. replace_fault E i = Some e" and "move_fault E = Some (CopiedThenRaises e')"
    and "0 < n" and "fmlookup fs src = Some (File b)"
  shows "atomic_move_with_retry E P fs src dst n = Inl (e, fmupd dst (File b) fs)"
  using assms(2,3,4)
  by (simp add: atomic_move_with_retry_def replace_loop_all_fail[OF assms(1)] move_attempt_def)

lemma a_txt_parts:
  "name_stem ''a.txt'' = ''a''" "name_suffix ''a.txt'' = ''.txt''" "safe_relpath [] = []"
  "str_nat 1 = ''1''" "str_nat 2 = ''2''" "str_nat (Suc 0) = ''1''"
  by code_simp+

lemma unique_examples:
  "unique_path fs_collide a_final = a_two" "unique_path fs_he a_final = a_final"
  "unique_path fs_blocked (UPLOAD_ROOT @ [''sub'', ''a.txt'']) = UPLOAD_ROOT @ [''sub'', ''a.txt'']"
  by code_simp+


lemma locked_faults:
  "\<forall>i. replace_fault E_locked i = Some PermissionError"
  "move_fault E_locked = Some (MoveRaises PermissionError)"
  by (simp_all add: E_locked_def)

lemma finish_locked:
  "upload_finish P0 E_locked fs_he (status_args ''5'') = (AbortFinalize PermissionError, fs_he)"
  "upload_finish P0 E_locked fs_collide (status_args ''3'')
     = (AbortFinalize PermissionError, fs_collide)"
proof -
  have h1: "args_get (status_args sz) ''name'' [] \<noteq> []" for sz by (simp add: status_args_get)
  have h5: "int_arg P0 (status_args ''5'') ''size'' = Inr 5"
    "int_arg P0 (status_args ''3'') ''size'' = Inr 3"
    by (simp_all add: status_args_get py_int_examples)
  have e: "exists fs_he (req_tmp P0 (status_args ''5''))"
    "exists fs_collide (req_tmp P0 (status_args ''3''))"
    by (simp_all add: status_tmp exists_def final_lookups)
  have lk: "atomic_move_with_retry E_locked P0 fs src dst 10 = Inl (PermissionError, fs)"
    for fs src dst
    by (rule atomic_move_locked[OF locked_faults]) simp
  have m: "mkdir_parents P0 fs_he (butlast a_final) = Inr fs_he"
    "mkdir_parents P0 fs_collide (butlast a_final) = Inr fs_collide"
    using mkdir_parents_ok[OF final_not_blocked(1), of P0] mkdir_parents_ok[OF final_not_blocked(2), of P0]
    by (simp_all add: final_dirs)
  show "upload_finish P0 E_locked fs_he (status_args ''5'') = (AbortFinalize PermissionError, fs_he)"
    by (simp add: upload_finish_present[OF h1 h5(1) e(1)] status_tmp unique_examples m Let_def
        lk exists_def final_lookups)
  show "upload_finish P0 E_locked fs_collide (status_args ''3'')
     = (AbortFinalize PermissionError, fs_collide)"
    by (simp add: upload_finish_present[OF h1 h5(2) e(2)] status_tmp unique_examples m Let_def
        lk exists_def final_lookups
        butlast_unique_path[of fs_collide a_final, unfolded unique_examples])
qed

lemma copied_faults:
  "\<forall>i. replace_fault E_copied i = Some PermissionError"
  "move_fault E_copied = Some (CopiedThenRaises PermissionError)"
  "unlink_fault E_copied = Some PermissionError"
  by (simp_all add: E_copied_def)

lemma finish_copied:
  "upload_finish P0 E_copied fs_he (status_args ''2'')
     = (Json 200 (ok_body P0 a_final (Some ''final existed after error'')),
        fmupd a_final (File ''he'') fs_he)"
  "upload_finish P0 E_copied fs_he (status_args ''5'')
     = (AbortFinalize PermissionError, fmupd a_final (File ''he'') fs_he)"
proof -
  have h1: "args_get (status_args sz) ''name'' [] \<noteq> []" for sz by (simp add: status_args_get)
  have h2: "int_arg P0 (status_args ''2'') ''size'' = Inr 2"
    "int_arg P0 (status_args ''5'') ''size'' = Inr 5"
    by (simp_all add: status_args_get py_int_examples)
  have e: "exists fs_he (req_tmp P0 (status_args sz))" for sz
    by (simp add: status_tmp exists_def final_lookups)
  have m: "mkdir_parents P0 fs_he (butlast a_final) = Inr fs_he"
    using mkdir_parents_ok[OF final_not_blocked(1), of P0] by (simp add: final_dirs)
  have c: "atomic_move_with_retry E_copied P0 fs_he a_part a_final 10
      = Inl (PermissionError, fmupd a_final (File ''he'') fs_he)"
    by (rule atomic_move_copied[OF copied_faults(1,2)]) (simp_all add: final_lookups)
  have st: "stat_size P0 (fmupd a_final (File ''he'') fs_he) a_final = Inr 2"
    by (simp add: stat_size_def)
  show "upload_finish P0 E_copied fs_he (status_args ''2'')
     = (Json 200 (ok_body P0 a_final (Some ''final existed after error'')),
        fmupd a_final (File ''he'') fs_he)"
    by (simp add: upload_finish_present[OF h1 h2(1) e] status_tmp unique_examples m c Let_def
        exists_def st unlink_attempt_def copied_faults)
  show "upload_finish P0 E_copied fs_he (status_args ''5'')
     = (AbortFinalize PermissionError, fmupd a_final (File ''he'') fs_he)"
    by (simp add: upload_finish_present[OF h1 h2(2) e] status_tmp unique_examples m c Let_def
        exists_def st)
qed




text \<open>
  C4, as stated, has the partial file moved for every request that finds both files. When
  another process holds the partial file, so that every \<^verbatim>\<open>os.replace\<close> and the
  \<^verbatim>\<open>shutil.move\<close> raise \<^verbatim>\<open>PermissionError\<close>, the handler answers 500 and the partial
  file stays at the staging path.
\<close>

theorem finish_collision_counterexample:
  "fmlookup fs_collide (req_final P0 (status_args ''3'')) = Some (File ''old'')
   \<and> fmlookup fs_collide (req_tmp P0 (status_args ''3'')) = Some (File ''new'')
   \<and> upload_finish P0 E_locked fs_collide (status_args ''3'')
       = (AbortFinalize PermissionError, fs_collide)
   \<and> fmlookup (snd (upload_finish P0 E_locked fs_collide (status_args ''3''))) a_part
       = Some (File ''new'')"
  by (simp add: finish_locked status_tmp final_lookups)

text \<open>
  C4, amended. For a finish request with a name and a size that parses, when both the final
  file at the preferred path and the partial file exist, no regular file stands in the way of
  the directory of the final path (none does where the final file is there) and the move
  succeeds: the partial file moves to the name made of the stem, a space, a number in
  parentheses and the suffix of the preferred name, in the same directory; the number is the
  least positive one at whose name nothing exists; the answer is success with that path; the
  partial file is gone from the staging path; and what was at the preferred path is as it
  was.
\<close>

theorem finish_collision:
  assumes "args_get a ''name'' [] \<noteq> []" and "int_arg P a ''size'' = Inr sz"
    and "fmlookup fs (req_final P a) = Some f"
    and "fmlookup fs (req_tmp P a) = Some (File b)"
    and "\<not> blocked fs (butlast (req_final P a))"
    and "move_ok E"
  shows "\<exists>i stem sfx dst.
           1 \<le> i
         \<and> stem @ sfx = safe_name P (args_get a ''name'' [])
         \<and> sfx = name_suffix (safe_name P (args_get a ''name'' []))
         \<and> dst = UPLOAD_ROOT @ safe_relpath (args_get a ''relpath'' [])
                   @ [stem @ '' ('' @ str_nat i @ '')'' @ sfx]
         \<and> \<not> exists fs dst
         \<and> (\<forall>j. 1 \<le> j \<and> j < i \<longrightarrow>
               exists fs (UPLOAD_ROOT @ safe_relpath (args_get a ''relpath'' [])
                   @ [stem @ '' ('' @ str_nat j @ '')'' @ sfx]))
         \<and> upload_finish P E fs a
             = (Json 200 (ok_body P dst None),
                fmupd dst (File b)
                  (fmdrop (req_tmp P a) (made_dirs P fs (butlast (req_final P a)))))
         \<and> fmlookup (snd (upload_finish P E fs a)) dst = Some (File b)
         \<and> fmlookup (snd (upload_finish P E fs a)) (req_tmp P a) = None
         \<and> fmlookup (snd (upload_finish P E fs a)) (req_final P a) = Some f"
proof -
  let ?n = "safe_name P (args_get a ''name'' [])"
  let ?p = "req_final P a"
  let ?dir = "UPLOAD_ROOT @ safe_relpath (args_get a ''relpath'' [])"
  let ?fs1 = "made_dirs P fs (butlast ?p)"
  have cand: "candidate ?p (name_stem ?n) (name_suffix ?n) j
      = ?dir @ [name_stem ?n @ '' ('' @ str_nat j @ '')'' @ name_suffix ?n]" for j
    by (simp add: candidate_def with_name_def final_path_def butlast_append)
  have e: "exists fs ?p" using assms(3) by (simp add: exists_def)
  from unique_loop_least[of 1 fs ?p "name_stem ?n" "name_suffix ?n"]
  obtain i where i: "1 \<le> i"
    "unique_loop fs ?p (name_stem ?n) (name_suffix ?n) 1 = candidate ?p (name_stem ?n) (name_suffix ?n) i"
    "\<not> exists fs (candidate ?p (name_stem ?n) (name_suffix ?n) i)"
    "\<forall>j. 1 \<le> j \<and> j < i \<longrightarrow> exists fs (candidate ?p (name_stem ?n) (name_suffix ?n) j)"
    by blast
  let ?dst = "candidate ?p (name_stem ?n) (name_suffix ?n) i"
  have u: "unique_path fs ?p = ?dst"
    using e i(2) by (simp add: unique_path_def final_path_last)
  have r: "upload_finish P E fs a
      = (Json 200 (ok_body P ?dst None), fmupd ?dst (File b) (fmdrop (req_tmp P a) ?fs1))"
    using upload_finish_moves[OF assms(1,2,4,5,6)] by (simp only: u)
  have ne1: "?dst \<noteq> ?p"
    using candidate_ne_self[of ?p i] by (simp add: final_path_last)
  have ne2: "?p \<noteq> req_tmp P a" by (rule final_ne_tmp)
  have ne3: "?dst \<noteq> req_tmp P a"
    using unique_final_ne_tmp[of fs P "args_get a ''name'' []" "args_get a ''relpath'' []"
        "args_get a ''name'' []"] unfolding u .
  have keep: "fmlookup (snd (upload_finish P E fs a)) ?p = Some f"
    using assms(3) ne1 ne2 made_dirs_parent(1)[OF assms(5), of P] by (simp add: r)
  have new: "fmlookup (snd (upload_finish P E fs a)) ?dst = Some (File b)"
    by (simp add: r)
  have gone: "fmlookup (snd (upload_finish P E fs a)) (req_tmp P a) = None"
    using ne3 by (simp add: r)
  show ?thesis
    apply (rule exI[of _ i], rule exI[of _ "name_stem ?n"], rule exI[of _ "name_suffix ?n"],
        rule exI[of _ ?dst])
    using i(1,3,4) r keep new gone by (simp add: stem_suffix cand)
qed

theorem finish_collision_witness:
  "fmlookup fs_collide (req_final P0 (status_args ''3'')) = Some (File ''old'')
   \<and> fmlookup fs_collide (req_tmp P0 (status_args ''3'')) = Some (File ''new'')
   \<and> exists fs_collide a_one
   \<and> upload_finish P0 E0 fs_collide (status_args ''3'')
       = (Json 200 (ok_body P0 a_two None), fmupd a_two (File ''new'') (fmdrop a_part fs_collide))
   \<and> fmlookup (snd (upload_finish P0 E0 fs_collide (status_args ''3''))) a_final
       = Some (File ''old'')"
proof -
  let ?a = "status_args ''3''"
  have h1: "args_get ?a ''name'' [] \<noteq> []" by (simp add: status_args_get)
  have h2: "int_arg P0 ?a ''size'' = Inr 3" by (simp add: status_args_get py_int_examples)
  have h3: "fmlookup fs_collide (req_final P0 ?a) = Some (File ''old'')"
    by (simp add: status_tmp final_lookups)
  have h4: "fmlookup fs_collide (req_tmp P0 ?a) = Some (File ''new'')"
    by (simp add: status_tmp final_lookups)
  have h5: "\<not> blocked fs_collide (butlast (req_final P0 ?a))"
    by (simp only: status_tmp final_not_blocked simp_thms)
  have x: "exists fs_collide a_one" "\<not> exists fs_collide a_two"
    by (simp_all add: exists_def final_lookups)
  have c: "UPLOAD_ROOT @ safe_relpath (args_get ?a ''relpath'' []) @ [''a'' @ '' ('' @ str_nat 1 @ '')'' @ ''.txt''] = a_one"
    "UPLOAD_ROOT @ safe_relpath (args_get ?a ''relpath'' []) @ [''a'' @ '' ('' @ str_nat 2 @ '')'' @ ''.txt''] = a_two"
    by (simp_all add: status_args_get a_txt_parts a_one_def a_two_def)
  from finish_collision[OF h1 h2 h3 h4 h5 moves(1)]
  obtain i stem sfx dst where r:
    "1 \<le> i" "stem @ sfx = safe_name P0 (args_get ?a ''name'' [])"
    "sfx = name_suffix (safe_name P0 (args_get ?a ''name'' []))"
    "dst = UPLOAD_ROOT @ safe_relpath (args_get ?a ''relpath'' [])
             @ [stem @ '' ('' @ str_nat i @ '')'' @ sfx]"
    "\<not> exists fs_collide dst"
    "\<forall>j. 1 \<le> j \<and> j < i \<longrightarrow>
       exists fs_collide (UPLOAD_ROOT @ safe_relpath (args_get ?a ''relpath'' [])
           @ [stem @ '' ('' @ str_nat j @ '')'' @ sfx])"
    "upload_finish P0 E0 fs_collide ?a
       = (Json 200 (ok_body P0 dst None),
          fmupd dst (File ''new'')
            (fmdrop (req_tmp P0 ?a) (made_dirs P0 fs_collide (butlast (req_final P0 ?a)))))"
    "fmlookup (snd (upload_finish P0 E0 fs_collide ?a)) (req_final P0 ?a) = Some (File ''old'')"
    by blast
  from r(2,3) have s: "sfx = ''.txt''" "stem = ''a''"
    by (simp_all add: status_args_get safe_name_example a_txt_parts)
  have "i = 2"
  proof (rule ccontr)
    assume n: "i \<noteq> 2"
    show False
    proof (cases "i = 1")
      case True
      with r(4,5) s c(1) x(1) show False by simp
    next
      case False
      with n r(1) have "1 \<le> (2::nat) \<and> 2 < i" by simp
      with r(6) have "exists fs_collide (UPLOAD_ROOT @ safe_relpath (args_get ?a ''relpath'' [])
           @ [stem @ '' ('' @ str_nat 2 @ '')'' @ sfx])" by blast
      with s c(2) x(2) show False by simp
    qed
  qed
  with r(4) s c(2) have d: "dst = a_two" by simp
  from r(7,8) d h3 h4 x(1) show ?thesis
    by (simp add: status_tmp final_dirs)
qed

text \<open>
  C10, as stated, has every partial file that exists promoted. Where a regular file stands at
  the place of the directory of the final path, \<^verbatim>\<open>mkdir\<close> raises
  \<^verbatim>\<open>FileExistsError\<close>, which the handler does not catch; and where another process holds
  the partial file, the handler answers 500. In both cases the partial file stays at the
  staging path. Where \<^verbatim>\<open>shutil.move\<close> has made its copy before it raises, the handler
  compares the size of the copy, which is the length of the partial file, with the declared
  size: a partial file of two bytes is reported as success for the declared size 2 and as
  500 for the declared size 5.
\<close>

theorem finish_blocked_counterexample:
  "fmlookup fs_blocked (req_tmp P0 (sub_args ''2'' ''0'')) = Some (File ''he'')
   \<and> fmlookup fs_blocked (UPLOAD_ROOT @ [''sub'']) = Some (File ''x'')
   \<and> upload_finish P0 E0 fs_blocked (sub_args ''2'' ''0'')
       = (Unhandled (OSErr FileExistsError), fs_blocked)
   \<and> fmlookup fs_he (req_tmp P0 (status_args ''5'')) = Some (File ''he'')
   \<and> upload_finish P0 E_locked fs_he (status_args ''5'') = (AbortFinalize PermissionError, fs_he)
   \<and> upload_finish P0 E_copied fs_he (status_args ''2'')
       = (Json 200 (ok_body P0 a_final (Some ''final existed after error'')),
          fmupd a_final (File ''he'') fs_he)
   \<and> upload_finish P0 E_copied fs_he (status_args ''5'')
       = (AbortFinalize PermissionError, fmupd a_final (File ''he'') fs_he)"
proof -
  let ?a = "sub_args ''2'' ''0''"
  have h1: "args_get ?a ''name'' [] \<noteq> []" by (simp add: sub_args_name)
  have h2: "int_arg P0 ?a ''size'' = Inr 2" by (simp add: sub_args_size py_int_examples)
  have l: "fmlookup fs_blocked sub_part = Some (File ''he'')" by (rule final_lookups)
  have k: "fmlookup fs_blocked (UPLOAD_ROOT @ [''sub'']) = Some (File ''x'')" by code_simp
  have e: "exists fs_blocked (req_tmp P0 ?a)" by (simp add: sub_tmp exists_def l)
  have m: "mkdir_parents P0 fs_blocked (butlast (UPLOAD_ROOT @ [''sub'', ''a.txt'']))
      = Inl FileExistsError"
    by code_simp
  have "upload_finish P0 E0 fs_blocked ?a = (Unhandled (OSErr FileExistsError), fs_blocked)"
    by (simp add: upload_finish_present[OF h1 h2 e] sub_final unique_examples m Let_def)
  with l k finish_locked(1) finish_copied show ?thesis
    by (simp add: sub_tmp status_tmp final_lookups)
qed

text \<open>
  C10, amended. For a finish request with a name and a size that parses, when the partial
  file exists, the directory of the final path can be made and the move succeeds: the partial
  file moves to the final location (the preferred path, or the free name chosen by
  \<^verbatim>\<open>_unique_path\<close> when the preferred one is taken) and the answer is success, whatever
  the declared size is and whatever the length of the partial file; a request for the same
  target with any other size has the same result.
\<close>

theorem finish_ignores_size:
  assumes "args_get a ''name'' [] \<noteq> []" and "int_arg P a ''size'' = Inr sz"
    and "fmlookup fs (req_tmp P a) = Some (File b)"
    and "\<not> blocked fs (butlast (req_final P a))"
    and "move_ok E"
  shows "upload_finish P E fs a
           = (Json 200 (ok_body P (unique_path fs (req_final P a)) None),
              fmupd (unique_path fs (req_final P a)) (File b)
                (fmdrop (req_tmp P a) (made_dirs P fs (butlast (req_final P a)))))
       \<and> fmlookup (snd (upload_finish P E fs a)) (unique_path fs (req_final P a)) = Some (File b)
       \<and> fmlookup (snd (upload_finish P E fs a)) (req_tmp P a) = None
       \<and> (args_get a' ''name'' [] = args_get a ''name'' []
            \<and> args_get a' ''relpath'' [] = args_get a ''relpath'' []
            \<and> int_arg P a' ''size'' = Inr sz' \<longrightarrow>
              upload_finish P E fs a' = upload_finish P E fs a)"
proof -
  note r = upload_finish_moves[OF assms]
  have n: "fmlookup (snd (upload_finish P E fs a)) (req_tmp P a) = None"
    using unique_final_ne_tmp[of fs P "args_get a ''name'' []" "args_get a ''relpath'' []"
        "args_get a ''name'' []"]
    by (auto simp: r)
  have s: "upload_finish P E fs a' = upload_finish P E fs a"
    if "args_get a' ''name'' [] = args_get a ''name'' []"
      "args_get a' ''relpath'' [] = args_get a ''relpath'' []"
      "int_arg P a' ''size'' = Inr sz'"
    using that assms upload_finish_moves[of a' P sz' fs b E] r by simp
  from r n s show ?thesis by simp
qed

theorem finish_ignores_size_witness:
  "fmlookup fs_he (req_tmp P0 (status_args ''5'')) = Some (File ''he'')
   \<and> int_arg P0 (status_args ''5'') ''size'' = Inr 5
   \<and> upload_finish P0 E0 fs_he (status_args ''5'')
       = (Json 200 (ok_body P0 a_final None), fmupd a_final (File ''he'') (fmdrop a_part fs_he))
   \<and> upload_finish P0 E0 fs_he (status_args ''2'')
       = upload_finish P0 E0 fs_he (status_args ''5'')"
proof -
  let ?a = "status_args ''5''"
  have h1: "args_get ?a ''name'' [] \<noteq> []" by (simp add: status_args_get)
  have h2: "int_arg P0 ?a ''size'' = Inr 5" by (simp add: status_args_get py_int_examples)
  have h3: "fmlookup fs_he (req_tmp P0 ?a) = Some (File ''he'')"
    by (simp add: status_tmp final_lookups)
  have h4: "int_arg P0 (status_args ''2'') ''size'' = Inr 2"
    by (simp add: status_args_get py_int_examples)
  have h5: "\<not> blocked fs_he (butlast (req_final P0 ?a))"
    by (simp only: status_tmp final_not_blocked simp_thms)
  note t = finish_ignores_size[OF h1 h2 h3 h5 moves(1), of "status_args ''2''" 2]
  from t have "upload_finish P0 E0 fs_he ?a
       = (Json 200 (ok_body P0 a_final None), fmupd a_final (File ''he'') (fmdrop a_part fs_he))"
    by (simp add: status_tmp unique_examples final_dirs)
  moreover from t h4 have "upload_finish P0 E0 fs_he (status_args ''2'') = upload_finish P0 E0 fs_he ?a"
    by (simp add: status_args_get)
  ultimately show ?thesis using h2 h3 by simp
qed

subsection \<open>The partial file over a sequence of requests\<close>

lemma upload_chunk_effect:
  assumes "fmlookup fs (req_tmp P a) = Some (File c)"
  shows "fmlookup (snd (upload_chunk P fs a body)) (req_tmp P a) = Some (File c)
       \<or> fmlookup (snd (upload_chunk P fs a body)) (req_tmp P a) = Some (File (c @ body))"
proof (cases "int_arg P a ''size''")
  case (Inl e)
  with assms show ?thesis by (simp add: upload_chunk_def Let_def)
next
  case (Inr sz)
  note s = this
  show ?thesis
  proof (cases "int_arg P a ''offset''")
    case (Inl e)
    with s assms show ?thesis by (simp add: upload_chunk_def Let_def)
  next
    case (Inr offset)
    note t = this
    show ?thesis
    proof (cases "args_get a ''name'' [] = [] \<or> sz < 0 \<or> offset < 0")
      case True
      with s t assms show ?thesis by (simp add: upload_chunk_def Let_def)
    next
      case False
      then have v: "args_get a ''name'' [] \<noteq> []" "0 \<le> sz" "0 \<le> offset" by auto
      show ?thesis
        using assms
        by (simp add: upload_chunk_valid[OF v(1) s v(2) t v(3)] Let_def partial_bytes_def
            split: sum.split)
    qed
  qed
qed

text \<open>A move either takes the regular file at its source away or leaves it as it is.\<close>

lemma replace_loop_file:
  assumes "fmlookup fs src = Some (File c)" and "src \<noteq> dst"
  shows "case replace_loop E P fs src dst js last_err of
           Inr fs' \<Rightarrow> fmlookup fs' src = None
         | Inl e \<Rightarrow> True"
proof (induction js arbitrary: last_err)
  case Nil
  then show ?case by simp
next
  case (Cons i js)
  show ?case
  proof (cases "replace_attempt E P fs src dst i")
    case (Inl e)
    with Cons.IH[of "Some e"] show ?thesis by simp
  next
    case (Inr fs')
    then have "fmlookup fs' src = None"
      using assms
      by (auto simp: replace_attempt_def os_replace_def
          split: option.splits node.splits if_splits)
    with Inr show ?thesis by simp
  qed
qed

lemma move_attempt_file:
  assumes "fmlookup fs src = Some (File c)" and "src \<noteq> dst" and "fmlookup fs dst = None"
  shows "case move_attempt E P fs src dst of
           Inr fs' \<Rightarrow> fmlookup fs' src = None
         | Inl (e, fs') \<Rightarrow> fmlookup fs' src = Some (File c)"
proof (cases "move_fault E")
  case None
  with assms show ?thesis
    by (simp add: move_attempt_def shutil_move_def is_dir_def move_to_def os_rename_def
        exists_def os_replace_def)
next
  case (Some f)
  with assms show ?thesis
    by (cases f) (simp_all add: move_attempt_def)
qed

lemma atomic_move_file:
  assumes "fmlookup fs src = Some (File c)" and "src \<noteq> dst" and "fmlookup fs dst = None"
  shows "case atomic_move_with_retry E P fs src dst n of
           Inr fs' \<Rightarrow> fmlookup fs' src = None
         | Inl (e, fs') \<Rightarrow> fmlookup fs' src = Some (File c)"
proof (cases "replace_loop E P fs src dst [0..<n] None")
  case (Inr fs')
  with replace_loop_file[OF assms(1,2), of E P "[0..<n]" None] show ?thesis
    by (simp add: atomic_move_with_retry_def)
next
  case (Inl l)
  with move_attempt_file[OF assms, of E P] show ?thesis
    by (auto simp: atomic_move_with_retry_def split: sum.splits)
qed

lemma unlink_file:
  "fmlookup fs p = Some (File c) \<Longrightarrow> unlink P fs p = Inr (fmdrop p fs)"
  by (simp add: unlink_def)

lemma mkdir_keeps_file:
  assumes "mkdir_parents P fs d = Inr fs1"
  shows "fmlookup fs q = Some (File c) \<Longrightarrow> fmlookup fs1 q = Some (File c)"
    and "fmlookup fs q = None \<Longrightarrow> length d < length q \<Longrightarrow> fmlookup fs1 q = None"
proof -
  have nb: "\<not> blocked fs d"
    using assms mkdir_parents_blocked[of fs d P] by auto
  then have f: "fs1 = made_dirs P fs d" using assms mkdir_parents_ok[of fs d P] by simp
  have l: "fmlookup fs1 q = (if q \<noteq> [] \<and> in_tree q d then Some Dir else fmlookup fs q)"
    unfolding f by (rule made_dirs_lookup[OF nb])
  show "fmlookup fs1 q = Some (File c)" if h: "fmlookup fs q = Some (File c)"
  proof (cases "q \<noteq> [] \<and> in_tree q d")
    case False
    with l h show ?thesis by simp
  next
    case True
    then have "\<exists>j. 0 < j \<and> j \<le> length d \<and> q = take j d"
      using prefix_take_iff[of d q] by simp
    then obtain j where "0 < j" "j \<le> length d" "q = take j d" by blast
    with nb h have False by (auto simp: blocked_iff is_file_def)
    then show ?thesis ..
  qed
  show "fmlookup fs1 q = None" if "fmlookup fs q = None" "length d < length q"
    using l that not_in_tree_longer[of d q] by simp
qed

lemma upload_finish_effect:
  assumes "fmlookup fs (req_tmp P a) = Some (File c)"
  shows "fmlookup (snd (upload_finish P E fs a)) (req_tmp P a) = None
       \<or> fmlookup (snd (upload_finish P E fs a)) (req_tmp P a) = Some (File c)"
proof (cases "int_arg P a ''size''")
  case (Inl e)
  with assms show ?thesis by (simp add: upload_finish_def Let_def)
next
  case (Inr sz)
  show ?thesis
  proof (cases "args_get a ''name'' [] = []")
    case True
    with Inr assms show ?thesis by (simp add: upload_finish_def Let_def)
  next
    case False
    let ?tmp = "req_tmp P a" and ?dst = "unique_path fs (req_final P a)"
    have e: "exists fs ?tmp" using assms by (simp add: exists_def)
    note p = upload_finish_present[OF False Inr e, of E]
    show ?thesis
    proof (cases "mkdir_parents P fs (butlast ?dst)")
      case (Inl err)
      with assms show ?thesis by (simp add: p Let_def)
    next
      case (Inr fs1)
      have ne: "?tmp \<noteq> ?dst" using unique_final_ne_tmp[of fs P _ _ "args_get a ''name'' []"]
        by metis
      have l1: "fmlookup fs1 ?tmp = Some (File c)"
        by (rule mkdir_keeps_file(1)[OF Inr assms])
      have "fmlookup fs ?dst = None"
        using unique_path_free[of fs "req_final P a"] by (simp add: exists_def)
      moreover have "length (butlast ?dst) < length ?dst"
        by (simp add: unique_path_length final_path_last(1))
      ultimately have l2: "fmlookup fs1 ?dst = None"
        by (rule mkdir_keeps_file(2)[OF Inr])
      note m = atomic_move_file[OF l1 ne l2, of E P 10]
      show ?thesis
      proof (cases "atomic_move_with_retry E P fs1 ?tmp ?dst 10")
        case (Inr fs2)
        with m \<open>mkdir_parents P fs (butlast ?dst) = Inr fs1\<close> show ?thesis
          by (simp add: p Let_def)
      next
        case (Inl r)
        obtain err fs2 where r: "r = (err, fs2)" by (cases r)
        with m Inl have l3: "fmlookup fs2 ?tmp = Some (File c)" by simp
        have u: "unlink_attempt E P fs2 ?tmp = Inr (fmdrop ?tmp fs2)
            \<or> (\<exists>e. unlink_attempt E P fs2 ?tmp = Inl e)"
          by (cases "unlink_fault E") (simp_all add: unlink_attempt_def unlink_file[OF l3])
        then show ?thesis
        proof
          assume "unlink_attempt E P fs2 ?tmp = Inr (fmdrop ?tmp fs2)"
          then show ?thesis
            using Inl r l3 \<open>mkdir_parents P fs (butlast ?dst) = Inr fs1\<close>
            by (cases err) (simp_all add: p Let_def)
        next
          assume "\<exists>e. unlink_attempt E P fs2 ?tmp = Inl e"
          then obtain e where "unlink_attempt E P fs2 ?tmp = Inl e" by blast
          then show ?thesis
            using Inl r l3 \<open>mkdir_parents P fs (butlast ?dst) = Inr fs1\<close>
            by (cases err) (simp_all add: p Let_def)
        qed
      qed
    qed
  qed
qed

text \<open>One request for a target, seen from the partial file of that target.\<close>

lemma serve_partial_step:
  assumes "args_get (req_args r) ''name'' [] = n"
    and "args_get (req_args r) ''relpath'' [] = rel"
    and "fmlookup fs (tmp_path P n rel) = Some (File c)"
  shows "case fmlookup (snd (serve P fs r)) (tmp_path P n rel) of
           None \<Rightarrow> (\<exists>E a. r = FinishReq E a)
         | Some nd \<Rightarrow> (\<exists>d. nd = File (c @ d))"
proof (cases r)
  case (StatusReq a)
  with assms show ?thesis
    by (simp add: upload_status_no_write req_args_def)
next
  case (ChunkReq a body)
  with assms have t: "req_tmp P a = tmp_path P n rel" by (simp add: req_args_def)
  from upload_chunk_effect[of fs P a c body] assms(3) t ChunkReq show ?thesis
    by auto
next
  case (FinishReq E a)
  with assms have t: "req_tmp P a = tmp_path P n rel" by (simp add: req_args_def)
  from upload_finish_effect[of fs P a c E] assms(3) t FinishReq show ?thesis
    by auto
qed

text \<open>
  C8. Take any sequence of status, chunk and finish requests that all name the same target
  (the same name and relative path), and any step of it before which the partial file of the
  target exists. After the step the partial file either holds its old bytes followed by
  appended ones (none for a status request or a rejected chunk), so its length has not
  decreased and no earlier byte has changed, or it no longer exists, and then the step was
  a finish request.
\<close>

theorem partial_only_grows:
  assumes "\<forall>r \<in> set rs. args_get (req_args r) ''name'' [] = n
                       \<and> args_get (req_args r) ''relpath'' [] = rel"
    and "i < length rs"
    and "fmlookup (trace P fs rs ! i) (tmp_path P n rel) = Some (File c)"
  shows "case fmlookup (trace P fs rs ! Suc i) (tmp_path P n rel) of
           None \<Rightarrow> (\<exists>E a. rs ! i = FinishReq E a)
         | Some nd \<Rightarrow> (\<exists>d. nd = File (c @ d))"
  using assms
proof (induction rs arbitrary: fs i)
  case Nil
  then show ?case by simp
next
  case (Cons r rs)
  show ?case
  proof (cases i)
    case 0
    have h: "trace P (snd (serve P fs r)) rs ! 0 = snd (serve P fs r)"
      by (cases rs) simp_all
    from Cons.prems(1) have "args_get (req_args r) ''name'' [] = n"
      "args_get (req_args r) ''relpath'' [] = rel" by simp_all
    moreover from Cons.prems(3) 0 have "fmlookup fs (tmp_path P n rel) = Some (File c)" by simp
    ultimately have "case fmlookup (snd (serve P fs r)) (tmp_path P n rel) of
           None \<Rightarrow> (\<exists>E a. r = FinishReq E a)
         | Some nd \<Rightarrow> (\<exists>d. nd = File (c @ d))"
      by (rule serve_partial_step)
    moreover have "trace P fs (r # rs) ! Suc i = snd (serve P fs r)" "(r # rs) ! i = r"
      using 0 h by simp_all
    ultimately show ?thesis by (simp only:)
  next
    case (Suc k)
    with Cons.prems have "\<forall>r \<in> set rs. args_get (req_args r) ''name'' [] = n
                       \<and> args_get (req_args r) ''relpath'' [] = rel"
      "k < length rs"
      "fmlookup (trace P (snd (serve P fs r)) rs ! k) (tmp_path P n rel) = Some (File c)"
      by simp_all
    from Cons.IH[OF this]
    have "case fmlookup (trace P (snd (serve P fs r)) rs ! Suc k) (tmp_path P n rel) of
           None \<Rightarrow> (\<exists>E a. rs ! k = FinishReq E a)
         | Some nd \<Rightarrow> (\<exists>d. nd = File (c @ d))" .
    moreover have "trace P fs (r # rs) ! Suc i = trace P (snd (serve P fs r)) rs ! Suc k"
      "(r # rs) ! i = rs ! k"
      using Suc by simp_all
    ultimately show ?thesis by (simp only:)
  qed
qed

theorem partial_only_grows_witness:
  "fmlookup (trace P0 fs_abc grow_then_finish ! 0) a_part = Some (File ''abc'')
   \<and> fmlookup (trace P0 fs_abc grow_then_finish ! Suc 0) a_part = Some (File ''abcde'')
   \<and> fmlookup (trace P0 fs_abc grow_then_finish ! Suc (Suc 0)) a_part = None
   \<and> grow_then_finish ! Suc 0 = FinishReq E0 (status_args ''10'')"
proof -
  let ?rs = "grow_then_finish"
  let ?fs1 = "fmupd a_part (File ''abcde'') fs_start"
  have tg: "\<forall>r \<in> set ?rs. args_get (req_args r) ''name'' [] = ''a.txt''
                       \<and> args_get (req_args r) ''relpath'' [] = []"
    by (simp add: grow_then_finish_def req_args_def chunk_args_name chunk_args_relpath
        status_args_get)
  have len: "0 < length ?rs" "Suc 0 < length ?rs" by (simp_all add: grow_then_finish_def)
  have c1: "upload_chunk P0 fs_abc (chunk_args ''10'' ''3'') ''de''
      = (Json 200 [(''received'', JInt 5)], ?fs1)"
    by (simp add: upload_chunk_valid[of "chunk_args ''10'' ''3''" P0 10 3] chunk_args_name
        chunk_args_relpath chunk_args_size chunk_args_offset py_int_examples a_txt_paths
        part_sizes part_lookups partial_bytes_def mkdir_parents_ok[OF part_not_blocked(2)]
        part_dirs abc_append Let_def)
  have s0: "trace P0 fs_abc ?rs ! 0 = fs_abc" by (simp add: grow_then_finish_def)
  have s1: "trace P0 fs_abc ?rs ! Suc 0 = ?fs1"
    by (simp add: grow_then_finish_def c1)
  have l0: "fmlookup (trace P0 fs_abc ?rs ! 0) (tmp_path P0 ''a.txt'' []) = Some (File ''abc'')"
    by (simp add: s0 a_txt_paths part_lookups)
  have l1: "fmlookup (trace P0 fs_abc ?rs ! Suc 0) (tmp_path P0 ''a.txt'' []) = Some (File ''abcde'')"
    by (simp add: s1 a_txt_paths)
  have l2: "fmlookup (trace P0 fs_abc ?rs ! Suc (Suc 0)) a_part = None"
  proof (cases "fmlookup (trace P0 fs_abc ?rs ! Suc (Suc 0)) a_part")
    case None
    then show ?thesis .
  next
    case (Some nd)
    with partial_only_grows[OF tg len(2) l1] have "\<exists>d. nd = File (''abcde'' @ d)"
      by (simp only: a_txt_paths option.case)
    moreover have "fmlookup (trace P0 fs_abc ?rs ! Suc (Suc 0)) a_part = None"
    proof -
      have h1: "args_get (status_args ''10'') ''name'' [] \<noteq> []" by (simp add: status_args_get)
      have h2: "int_arg P0 (status_args ''10'') ''size'' = Inr 10"
        by (simp add: status_args_get py_int_examples)
      have h3: "fmlookup ?fs1 (req_tmp P0 (status_args ''10'')) = Some (File ''abcde'')"
        by (simp add: status_tmp)
      have h4: "\<not> blocked ?fs1 (butlast (req_final P0 (status_args ''10'')))"
        unfolding status_tmp by code_simp
      have "fmlookup (snd (upload_finish P0 E0 ?fs1 (status_args ''10'')))
          (req_tmp P0 (status_args ''10'')) = None"
        using upload_finish_moves[OF h1 h2 h3 h4 moves(1)]
          unique_final_ne_tmp[of ?fs1 P0 "''a.txt''" "[]" "''a.txt''"]
        by (simp add: status_args_get)
      then show ?thesis
        by (simp add: grow_then_finish_def c1 status_tmp)
    qed
    ultimately show ?thesis by simp
  qed
  from l0 l1 l2 show ?thesis
    by (simp add: a_txt_paths grow_then_finish_def)
qed

end
